theory Spec2Isabelle
  imports Main "HOL-Library.AList"
begin

section \<open>JavaScript values, property descriptors and the object heap\<close>

text \<open>
  The hook of \<^verbatim>\<open>src/CrudHook/index.tsx\<close> works on JavaScript objects by reference: it
  builds a \<^verbatim>\<open>Record\<close> instance, stores two closures on it and copies its own property
  descriptors onto a fresh object. The model therefore keeps an explicit heap of objects.

  \<^item> A value is a primitive or a reference into the heap. Numbers are restricted to
    integers; nothing here does arithmetic on them. A string is the list of its code
    units.
  \<^item> An object is the list of its own properties (key and descriptor, in the order the
    object lists its keys), its extensibility flag and, for a function object, the code
    it runs. Objects are ordinary objects: no proxies, no arrays. The prototype chain is
    not modelled, so a property read or write sees own properties only; the built-in own
    properties of function objects (\<^verbatim>\<open>length\<close>, \<^verbatim>\<open>name\<close>, \<^verbatim>\<open>prototype\<close>) are left out.
  \<^item> A thrown exception is the \<open>Inl\<close> branch of a sum.
\<close>

type_synonym ref = nat

datatype val =
    VUndefined
  | VNull
  | VBool bool
  | VNum int
  | VStr string
  | VObj ref

datatype pkey = KStr string | KSym nat

datatype desc =
    DataDesc (val_of: val) (writable: bool) (enumerable: bool) (configurable: bool)
  | AccessorDesc (get_of: val) (set_of: val) (enumerable: bool) (configurable: bool)

text \<open>
  The code of a function object. \<open>Save m r\<close> and \<open>Delete m r\<close> are the two function
  expressions of \<^verbatim>\<open>useCrud\<close>, closed over the variables \<^verbatim>\<open>crudManager\<close> (a value) and
  \<^verbatim>\<open>CrudRecord\<close> (an object). \<open>ForceRender\<close> is the state setter React hands out,
  \<open>Lib n\<close> any function of an external library.
\<close>

datatype fn = Save val ref | Delete val ref | ForceRender | Lib nat

record obj =
  props :: "(pkey \<times> desc) list"
  extensible :: bool
  call :: "fn option"

type_synonym heap = "obj list"

datatype error = TypeError | Thrown val | Dangling

definition obj_at :: "heap \<Rightarrow> ref \<Rightarrow> obj option" where
  "obj_at h r = (if r < length h then Some (h ! r) else None)"

definition alloc :: "obj \<Rightarrow> heap \<Rightarrow> ref \<times> heap" where
  "alloc ob h = (length h, h @ [ob])"

definition empty_object :: obj where
  "empty_object = \<lparr>props = [], extensible = True, call = None\<rparr>"

definition function_object :: "fn \<Rightarrow> obj" where
  "function_object f = \<lparr>props = [], extensible = True, call = Some f\<rparr>"

definition typeof :: "heap \<Rightarrow> val \<Rightarrow> string" where
  "typeof h v =
     (case v of
        VUndefined \<Rightarrow> ''undefined''
      | VNull \<Rightarrow> ''object''
      | VBool _ \<Rightarrow> ''boolean''
      | VNum _ \<Rightarrow> ''number''
      | VStr _ \<Rightarrow> ''string''
      | VObj r \<Rightarrow>
          (case obj_at h r of
             Some ob \<Rightarrow> (if call ob = None then ''object'' else ''function'')
           | None \<Rightarrow> ''object''))"

subsection \<open>Own property descriptors\<close>

fun show_nat :: "nat \<Rightarrow> string" where
  "show_nat n =
     (if n < 10 then [char_of (48 + n)]
      else show_nat (n div 10) @ [char_of (48 + n mod 10)])"

declare show_nat.simps [simp del]

text \<open>
  The own properties of the wrapper object of a string primitive: one read-only,
  enumerable property per code unit, then the read-only \<^verbatim>\<open>length\<close>.
\<close>

definition string_props :: "string \<Rightarrow> (pkey \<times> desc) list" where
  "string_props s =
     map (\<lambda>i. (KStr (show_nat i), DataDesc (VStr [s ! i]) False True False)) [0..<length s]
     @ [(KStr ''length'', DataDesc (VNum (int (length s))) False False False)]"

text \<open>
  \<^verbatim>\<open>Object.getOwnPropertyDescriptors(obj)\<close>: \<^verbatim>\<open>ToObject\<close> throws on \<^verbatim>\<open>undefined\<close> and
  \<^verbatim>\<open>null\<close>; the wrapper of a boolean or a number has no own property. The result lists
  every own key, string or symbol, enumerable or not, with its complete descriptor; no
  getter is called.
\<close>

definition getOwnPropertyDescriptors :: "heap \<Rightarrow> val \<Rightarrow> error + (pkey \<times> desc) list" where
  "getOwnPropertyDescriptors h v =
     (case v of
        VUndefined \<Rightarrow> Inl TypeError
      | VNull \<Rightarrow> Inl TypeError
      | VBool _ \<Rightarrow> Inr []
      | VNum _ \<Rightarrow> Inr []
      | VStr s \<Rightarrow> Inr (string_props s)
      | VObj r \<Rightarrow> (case obj_at h r of Some ob \<Rightarrow> Inr (props ob) | None \<Rightarrow> Inl Dangling))"

text \<open>
  \<^verbatim>\<open>ValidateAndApplyPropertyDescriptor\<close> for a complete descriptor \<open>d\<close>. \<open>compatible\<close> is
  the test applied to a property that is not configurable; \<open>SameValue\<close> is equality on
  the values modelled here.
\<close>

definition compatible :: "desc \<Rightarrow> desc \<Rightarrow> bool" where
  "compatible cur d =
     (if configurable d then False
      else if enumerable d \<noteq> enumerable cur then False
      else (case cur of
              AccessorDesc g s _ _ \<Rightarrow>
                (case d of
                   AccessorDesc g' s' _ _ \<Rightarrow> g' = g \<and> s' = s
                 | DataDesc _ _ _ _ \<Rightarrow> False)
            | DataDesc v w _ _ \<Rightarrow>
                (case d of
                   AccessorDesc _ _ _ _ \<Rightarrow> False
                 | DataDesc v' w' _ _ \<Rightarrow> (if w then True else \<not> w' \<and> v' = v))))"

definition validate :: "desc option \<Rightarrow> bool \<Rightarrow> desc \<Rightarrow> bool" where
  "validate current ext d =
     (case current of
        None \<Rightarrow> ext
      | Some cur \<Rightarrow> configurable cur \<or> compatible cur d)"

text \<open>
  \<^verbatim>\<open>DefinePropertyOrThrow\<close> on an ordinary object. An accepted descriptor replaces the
  property where it stands, or is added after the existing keys.
\<close>

definition defineProperty :: "obj \<Rightarrow> pkey \<Rightarrow> desc \<Rightarrow> error + obj" where
  "defineProperty ob k d =
     (if validate (map_of (props ob) k) (extensible ob) d
      then Inr (ob\<lparr>props := AList.update k d (props ob)\<rparr>)
      else Inl TypeError)"

fun defineAll :: "obj \<Rightarrow> (pkey \<times> desc) list \<Rightarrow> error + obj" where
  "defineAll ob [] = Inr ob"
| "defineAll ob ((k, d) # ds) =
     (case defineProperty ob k d of
        Inl e \<Rightarrow> Inl e
      | Inr ob' \<Rightarrow> defineAll ob' ds)"

text \<open>
  \<^verbatim>\<open>Object.defineProperties(ob, descriptors)\<close>, for the descriptor list that
  \<open>getOwnPropertyDescriptors\<close> returned: a target that is not an object is a TypeError,
  otherwise the properties are defined one after the other and the first rejection throws.
\<close>

definition defineProperties :: "heap \<Rightarrow> val \<Rightarrow> (pkey \<times> desc) list \<Rightarrow> error + heap" where
  "defineProperties h ob ds =
     (case ob of
        VObj t \<Rightarrow>
          (case obj_at h t of
             None \<Rightarrow> Inl Dangling
           | Some target \<Rightarrow>
               (case defineAll target ds of
                  Inl e \<Rightarrow> Inl e
                | Inr target' \<Rightarrow> Inr (h[t := target'])))
      | _ \<Rightarrow> Inl TypeError)"

section \<open>The helper \<^verbatim>\<open>assign\<close>\<close>

text \<open>
  \<^verbatim>\<open>
  const assign = (ob: any, ...o: any) => {
    o.forEach((obj: any) =>{if (typeof obj !== 'undefined')
      Object.defineProperties(ob, Object.getOwnPropertyDescriptors(obj))})
    return ob
  }
  \<close>
  \<open>assign_forEach\<close> is the loop over the rest arguments; the argument of
  \<^verbatim>\<open>defineProperties\<close> is evaluated before the call.
\<close>

fun assign_forEach :: "heap \<Rightarrow> val \<Rightarrow> val list \<Rightarrow> error + heap" where
  "assign_forEach h ob [] = Inr h"
| "assign_forEach h ob (obj # os) =
     (if typeof h obj \<noteq> ''undefined''
      then (case getOwnPropertyDescriptors h obj of
              Inl e \<Rightarrow> Inl e
            | Inr ds \<Rightarrow>
                (case defineProperties h ob ds of
                   Inl e \<Rightarrow> Inl e
                 | Inr h' \<Rightarrow> assign_forEach h' ob os))
      else assign_forEach h ob os)"

definition assign :: "heap \<Rightarrow> val \<Rightarrow> val list \<Rightarrow> error + val \<times> heap" where
  "assign h ob os =
     (case assign_forEach h ob os of
        Inl e \<Rightarrow> Inl e
      | Inr h' \<Rightarrow> Inr (ob, h'))"

section \<open>What lies outside the repository\<close>

text \<open>
  The class \<^verbatim>\<open>Record\<close> (package resma) and the manager (package lemon-curd) are not part
  of the repository; the model takes them as a parameter:
  \<^item> \<open>Record_new record listener h\<close> is \<^verbatim>\<open>new Record(record, listener)\<close>: it throws, or
    returns the instance and the heap it leaves;
  \<^item> \<open>method_of m name h\<close> is the property read \<^verbatim>\<open>m.name\<close> on a value handed out by a
    library (the manager);
  \<^item> \<open>call_lib f this args h\<close> runs a function that is not one of the hook's two
    closures (a method of the manager, a getter or setter of the instance).
\<close>

record lib =
  Record_new :: "val \<Rightarrow> val \<Rightarrow> heap \<Rightarrow> error + ref \<times> heap"
  method_of :: "val \<Rightarrow> string \<Rightarrow> heap \<Rightarrow> error + val"
  call_lib :: "val \<Rightarrow> val \<Rightarrow> val list \<Rightarrow> heap \<Rightarrow> error + val \<times> heap"

text \<open>
  The context a component renders in. \<^verbatim>\<open>src/Provider\<close> is not among the sources, so
  what it hands to the components below it is a parameter of the hook: the value of
  \<^verbatim>\<open>CrudContext\<close>, which the hook uses as the manager, and the store.
\<close>

record env =
  CrudContext :: val
  store :: val

definition useContext :: "env \<Rightarrow> val" where
  "useContext e = CrudContext e"

section \<open>Property reads, writes and calls\<close>

definition arg :: "nat \<Rightarrow> val list \<Rightarrow> val" where
  "arg i args = (if i < length args then args ! i else VUndefined)"

text \<open>\<^verbatim>\<open>o.k\<close> on an object: the value of a data property, the result of a getter.\<close>

definition get_prop :: "lib \<Rightarrow> heap \<Rightarrow> ref \<Rightarrow> pkey \<Rightarrow> error + val \<times> heap" where
  "get_prop L h r k =
     (case obj_at h r of
        None \<Rightarrow> Inl Dangling
      | Some ob \<Rightarrow>
          (case map_of (props ob) k of
             None \<Rightarrow> Inr (VUndefined, h)
           | Some (DataDesc v _ _ _) \<Rightarrow> Inr (v, h)
           | Some (AccessorDesc g _ _ _) \<Rightarrow>
               (if g = VUndefined then Inr (VUndefined, h)
                else call_lib L g (VObj r) [] h)))"

text \<open>
  \<^verbatim>\<open>o.k = v\<close> in strict code (the file is a module): a new key needs an extensible
  object, a data property must be writable, an accessor must have a setter. Two things
  are left out: the prototype chain (an inherited setter or read-only property of the
  same name is not seen), and the place of a new key among the others (it is listed last,
  where JavaScript lists index keys first and symbol keys last).
\<close>

definition set_prop :: "lib \<Rightarrow> heap \<Rightarrow> ref \<Rightarrow> pkey \<Rightarrow> val \<Rightarrow> error + heap" where
  "set_prop L h r k v =
     (case obj_at h r of
        None \<Rightarrow> Inl Dangling
      | Some ob \<Rightarrow>
          (case map_of (props ob) k of
             None \<Rightarrow>
               (if extensible ob
                then Inr (h[r := ob\<lparr>props := AList.update k (DataDesc v True True True) (props ob)\<rparr>])
                else Inl TypeError)
           | Some (DataDesc _ w e c) \<Rightarrow>
               (if w
                then Inr (h[r := ob\<lparr>props := AList.update k (DataDesc v w e c) (props ob)\<rparr>])
                else Inl TypeError)
           | Some (AccessorDesc _ s _ _) \<Rightarrow>
               (if s = VUndefined then Inl TypeError
                else (case call_lib L s (VObj r) [v] h of
                        Inl e \<Rightarrow> Inl e
                      | Inr (_, h') \<Rightarrow> Inr h'))))"

section \<open>The hook \<^verbatim>\<open>useCrud\<close>\<close>

text \<open>
  \<^verbatim>\<open>
  CrudRecord.save = function (options?: Options) {
    return crudManager.save(CrudRecord._record, options)
  }
  CrudRecord.delete = function (options?: Options) {
    return crudManager.delete(CrudRecord._record, options)
  }
  \<close>
  The callee \<^verbatim>\<open>crudManager.save\<close> is read first, then the argument
  \<^verbatim>\<open>CrudRecord._record\<close>, then the call is made with the manager as \<^verbatim>\<open>this\<close>.
\<close>

definition CrudRecord_save :: "lib \<Rightarrow> val \<Rightarrow> ref \<Rightarrow> val \<Rightarrow> heap \<Rightarrow> error + val \<times> heap" where
  "CrudRecord_save L crudManager CrudRecord options h =
     (case method_of L crudManager ''save'' h of
        Inl e \<Rightarrow> Inl e
      | Inr f \<Rightarrow>
          (case get_prop L h CrudRecord (KStr ''_record'') of
             Inl e \<Rightarrow> Inl e
           | Inr (r, h1) \<Rightarrow> call_lib L f crudManager [r, options] h1))"

definition CrudRecord_delete :: "lib \<Rightarrow> val \<Rightarrow> ref \<Rightarrow> val \<Rightarrow> heap \<Rightarrow> error + val \<times> heap" where
  "CrudRecord_delete L crudManager CrudRecord options h =
     (case method_of L crudManager ''delete'' h of
        Inl e \<Rightarrow> Inl e
      | Inr f \<Rightarrow>
          (case get_prop L h CrudRecord (KStr ''_record'') of
             Inl e \<Rightarrow> Inl e
           | Inr (r, h1) \<Rightarrow> call_lib L f crudManager [r, options] h1))"

text \<open>Calling a function value, and the method call \<^verbatim>\<open>o.k(...args)\<close> of a consumer.\<close>

definition call_function :: "lib \<Rightarrow> val \<Rightarrow> val \<Rightarrow> val list \<Rightarrow> heap \<Rightarrow> error + val \<times> heap" where
  "call_function L f this args h =
     (case f of
        VObj r \<Rightarrow>
          (case obj_at h r of
             None \<Rightarrow> Inl Dangling
           | Some ob \<Rightarrow>
               (case call ob of
                  None \<Rightarrow> Inl TypeError
                | Some (Save m c) \<Rightarrow> CrudRecord_save L m c (arg 0 args) h
                | Some (Delete m c) \<Rightarrow> CrudRecord_delete L m c (arg 0 args) h
                | Some _ \<Rightarrow> call_lib L f this args h))
      | _ \<Rightarrow> Inl TypeError)"

definition call_method :: "lib \<Rightarrow> ref \<Rightarrow> pkey \<Rightarrow> val list \<Rightarrow> heap \<Rightarrow> error + val \<times> heap" where
  "call_method L r k args h =
     (case get_prop L h r k of
        Inl e \<Rightarrow> Inl e
      | Inr (f, h1) \<Rightarrow> call_function L f (VObj r) args h1)"

subsection \<open>The hooks of React\<close>

text \<open>
  The hook state of one mounted component. \<^verbatim>\<open>useState\<close> keeps the state and its setter
  (created once, at the first render); \<^verbatim>\<open>useMemo\<close> keeps the last dependencies and the
  value computed for them, and recomputes when a dependency differs under \<^verbatim>\<open>Object.is\<close>,
  which is equality on the values modelled here.
\<close>

record hooks =
  state_slot :: "(val \<times> ref) option"
  memo_slot :: "(val list \<times> val) option"

definition unmounted :: hooks where
  "unmounted = \<lparr>state_slot = None, memo_slot = None\<rparr>"

definition useState :: "val \<Rightarrow> hooks \<Rightarrow> heap \<Rightarrow> (val \<times> ref) \<times> hooks \<times> heap" where
  "useState initial hs h =
     (case state_slot hs of
        Some (s, setter) \<Rightarrow> ((s, setter), hs, h)
      | None \<Rightarrow>
          (let (setter, h') = alloc (function_object ForceRender) h
           in ((initial, setter), hs\<lparr>state_slot := Some (initial, setter)\<rparr>, h')))"

text \<open>
  What a call \<^verbatim>\<open>forceRender(v)\<close> of the setter leaves in the hook state, for a value
  \<open>v\<close> that is not a function: the value is stored. (React takes a function argument as
  an updater and stores its result; that case is not modelled.)
\<close>

definition forceRender :: "val \<Rightarrow> hooks \<Rightarrow> hooks" where
  "forceRender v hs =
     (case state_slot hs of
        Some (s, setter) \<Rightarrow> hs\<lparr>state_slot := Some (v, setter)\<rparr>
      | None \<Rightarrow> hs)"

definition useMemo ::
  "(heap \<Rightarrow> error + val \<times> heap) \<Rightarrow> val list \<Rightarrow> hooks \<Rightarrow> heap \<Rightarrow> error + val \<times> hooks \<times> heap" where
  "useMemo f deps hs h =
     (let compute =
            (case f h of
               Inl e \<Rightarrow> Inl e
             | Inr (v, h') \<Rightarrow> Inr (v, hs\<lparr>memo_slot := Some (deps, v)\<rparr>, h'))
      in case memo_slot hs of
           None \<Rightarrow> compute
         | Some (deps', v) \<Rightarrow> if deps' = deps then Inr (v, hs, h) else compute)"

subsection \<open>The hook\<close>

text \<open>
  \<^verbatim>\<open>
  export function useCrud (record: IRecord): CrudRecord {
    const crudManager = useContext(CrudContext)
    const [reference, forceRender] = useState({})
    return useMemo(() => {
      const CrudRecord = new Record(record, forceRender) as CrudRecord
      CrudRecord.save = function (options?: Options) { ... }
      CrudRecord.delete = function (options?: Options) { ... }
      return assign({}, CrudRecord)
    }, [reference, record])
  }
  \<close>
  \<open>useCrud_memo\<close> is the function given to \<^verbatim>\<open>useMemo\<close>. The hook declares one parameter;
  further arguments of a call are dropped, as JavaScript does. The literal \<^verbatim>\<open>{}\<close> given
  to \<^verbatim>\<open>useState\<close> is built at every render.
\<close>

definition useCrud_memo :: "lib \<Rightarrow> val \<Rightarrow> val \<Rightarrow> ref \<Rightarrow> heap \<Rightarrow> error + val \<times> heap" where
  "useCrud_memo L crudManager record setter h =
     (case Record_new L record (VObj setter) h of
        Inl e \<Rightarrow> Inl e
      | Inr (CrudRecord, h1) \<Rightarrow>
          (let (save, h2) = alloc (function_object (Save crudManager CrudRecord)) h1
           in case set_prop L h2 CrudRecord (KStr ''save'') (VObj save) of
                Inl e \<Rightarrow> Inl e
              | Inr h3 \<Rightarrow>
                  (let (del, h4) = alloc (function_object (Delete crudManager CrudRecord)) h3
                   in case set_prop L h4 CrudRecord (KStr ''delete'') (VObj del) of
                        Inl e \<Rightarrow> Inl e
                      | Inr h5 \<Rightarrow>
                          (let (target, h6) = alloc empty_object h5
                           in assign h6 (VObj target) [VObj CrudRecord]))))"

definition useCrud :: "lib \<Rightarrow> env \<Rightarrow> val list \<Rightarrow> hooks \<Rightarrow> heap \<Rightarrow> error + val \<times> hooks \<times> heap" where
  "useCrud L e args hs h =
     (let record = arg 0 args;
          crudManager = useContext e;
          (initial, h0) = alloc empty_object h;
          ((reference, setter), hs1, h1) = useState (VObj initial) hs h0
      in useMemo (useCrud_memo L crudManager record setter) [reference, record] hs1 h1)"

section \<open>Notions used in the statements\<close>

text \<open>
  Every object lists each of its own keys once. \<open>copied h t s\<close> is what \<^verbatim>\<open>assign\<close> takes
  from the source \<open>s\<close> for the target \<open>t\<close>: the own property descriptors of \<open>s\<close>, nothing
  for \<^verbatim>\<open>undefined\<close>, and nothing new when the source is the target itself.
\<close>

definition wf_heap :: "heap \<Rightarrow> bool" where
  "wf_heap h = (\<forall>ob \<in> set h. distinct (map fst (props ob)))"

definition copied :: "heap \<Rightarrow> ref \<Rightarrow> val \<Rightarrow> (pkey \<rightharpoonup> desc)" where
  "copied h t s =
     (if s = VObj t then Map.empty
      else (case getOwnPropertyDescriptors h s of
              Inr ds \<Rightarrow> map_of ds
            | Inl _ \<Rightarrow> Map.empty))"

definition in_heap :: "heap \<Rightarrow> val \<Rightarrow> bool" where
  "in_heap h v = (case v of VObj r \<Rightarrow> r < length h | _ \<Rightarrow> True)"

text \<open>
  When \<^verbatim>\<open>assign\<close> returns, stated without following the loop. \<open>definitions h t srcs\<close>
  lists, in order, the definitions that the sources ask for: the own property descriptors
  of each source, none for \<^verbatim>\<open>undefined\<close> (skipped) and none for the target itself (whose
  descriptors, defined on itself, are always accepted and change nothing). The \<open>n\<close>-th
  definition \<open>(k, d)\<close> is accepted when \<open>validate\<close> accepts \<open>d\<close> against the property that
  \<open>k\<close> has at that moment: the latest earlier definition of \<open>k\<close>, or else the property
  the target had, or none.
\<close>

definition definitions :: "heap \<Rightarrow> ref \<Rightarrow> val list \<Rightarrow> (pkey \<times> desc) list" where
  "definitions h t srcs =
     concat (map (\<lambda>s. if s = VObj t then []
                       else (case getOwnPropertyDescriptors h s of
                               Inr ds \<Rightarrow> ds
                             | Inl _ \<Rightarrow> [])) srcs)"

definition current :: "obj \<Rightarrow> (pkey \<times> desc) list \<Rightarrow> pkey \<Rightarrow> desc option" where
  "current target earlier k =
     (case map_of (rev earlier) k of
        Some d \<Rightarrow> Some d
      | None \<Rightarrow> map_of (props target) k)"

definition accepted :: "obj \<Rightarrow> (pkey \<times> desc) list \<Rightarrow> bool" where
  "accepted target ds =
     list_all (\<lambda>n. validate (current target (take n ds) (fst (ds ! n))) (extensible target)
                     (snd (ds ! n)))
       [0..<length ds]"

text \<open>Objects and heaps on which the statements are tried.\<close>

definition frozen_source :: obj where
  "frozen_source = \<lparr>props = [(KStr ''x'', DataDesc (VNum 1) False True False)],
                    extensible = False, call = None\<rparr>"

definition plain_x2 :: obj where
  "plain_x2 = \<lparr>props = [(KStr ''x'', DataDesc (VNum 2) True True True)],
                    extensible = True, call = None\<rparr>"

definition getter_source :: obj where
  "getter_source = \<lparr>props = [(KStr ''x'', DataDesc (VNum 1) True False True),
                              (KStr ''y'', AccessorDesc (VObj 3) VUndefined True True)],
                    extensible = True, call = None\<rparr>"

definition sample_heap :: heap where
  "sample_heap = [empty_object, getter_source, plain_x2, function_object (Lib 0)]"

definition frozen_heap :: heap where
  "frozen_heap = [empty_object, frozen_source]"

definition clash_heap :: heap where
  "clash_heap = [empty_object, frozen_source, plain_x2]"

text \<open>
  What the statements about the hook assume of the class \<^verbatim>\<open>Record\<close>: whenever the
  constructor returns, the heap has not shrunk and the instance is an extensible object of
  the heap that lists each key once and has no own property \<^verbatim>\<open>save\<close> or \<^verbatim>\<open>delete\<close>
  (the interface \<^verbatim>\<open>CrudRecord\<close> of the hook adds these two to the class).
\<close>

definition plain_instance :: "heap \<Rightarrow> ref \<Rightarrow> bool" where
  "plain_instance h i =
     (case obj_at h i of
        None \<Rightarrow> False
      | Some ob \<Rightarrow> extensible ob \<and> distinct (map fst (props ob))
                 \<and> map_of (props ob) (KStr ''save'') = None
                 \<and> map_of (props ob) (KStr ''delete'') = None)"

definition Record_class :: "lib \<Rightarrow> bool" where
  "Record_class L =
     (\<forall>record listener h i h1.
        Record_new L record listener h = Inr (i, h1) \<longrightarrow> length h \<le> length h1 \<and> plain_instance h1 i)"

text \<open>
  The values a render works with, read off \<open>useState\<close>: the state \<^verbatim>\<open>reference\<close>, the
  setter, the heap and the hook state when \<^verbatim>\<open>useMemo\<close> is reached. \<open>recomputes\<close> says
  that \<^verbatim>\<open>useMemo\<close> runs its function: nothing is cached, or a dependency has changed.
  \<open>with_methods i h\<close> is the instance \<open>i\<close> after the two assignments.
\<close>

definition render_reference :: "hooks \<Rightarrow> heap \<Rightarrow> val" where
  "render_reference hs h = (case state_slot hs of Some (s, _) \<Rightarrow> s | None \<Rightarrow> VObj (length h))"

definition render_setter :: "hooks \<Rightarrow> heap \<Rightarrow> ref" where
  "render_setter hs h = (case state_slot hs of Some (_, f) \<Rightarrow> f | None \<Rightarrow> Suc (length h))"

definition render_heap :: "hooks \<Rightarrow> heap \<Rightarrow> heap" where
  "render_heap hs h =
     (case state_slot hs of
        Some _ \<Rightarrow> h @ [empty_object]
      | None \<Rightarrow> h @ [empty_object, function_object ForceRender])"

definition render_hooks :: "hooks \<Rightarrow> heap \<Rightarrow> hooks" where
  "render_hooks hs h =
     (case state_slot hs of
        Some _ \<Rightarrow> hs
      | None \<Rightarrow> hs\<lparr>state_slot := Some (VObj (length h), Suc (length h))\<rparr>)"

definition recomputes :: "hooks \<Rightarrow> heap \<Rightarrow> val \<Rightarrow> bool" where
  "recomputes hs h record =
     (case memo_slot hs of
        None \<Rightarrow> True
      | Some (deps, _) \<Rightarrow> deps \<noteq> [render_reference hs h, record])"

definition with_methods :: "ref \<Rightarrow> heap \<Rightarrow> obj" where
  "with_methods i h1 =
     (h1 ! i)\<lparr>props := props (h1 ! i) @
        [(KStr ''save'', DataDesc (VObj (length h1)) True True True),
         (KStr ''delete'', DataDesc (VObj (Suc (length h1))) True True True)]\<rparr>"

text \<open>
  \<open>rendered m i h\<close> is the heap that the function given to \<^verbatim>\<open>useMemo\<close> leaves when the
  constructor returned the instance \<open>i\<close> in the heap \<open>h\<close>, under the manager \<open>m\<close>: the
  instance with its two methods, the two closures and the wrapper.
\<close>

definition rendered :: "val \<Rightarrow> ref \<Rightarrow> heap \<Rightarrow> heap" where
  "rendered m i h1 =
     h1[i := with_methods i h1]
       @ [function_object (Save m i), function_object (Delete m i),
          \<lparr>props = props (with_methods i h1), extensible = True, call = None\<rparr>]"

text \<open>
  A small library and heap on which the statements are tried: the constructor rejects
  \<^verbatim>\<open>null\<close> and otherwise builds an instance with the fields \<^verbatim>\<open>_record\<close> and
  \<^verbatim>\<open>_listener\<close> and a method of its own; a manager is an object whose methods are own
  data properties; a library function returns a new object that records its call.
\<close>

definition sample_Record_new :: "val \<Rightarrow> val \<Rightarrow> heap \<Rightarrow> error + ref \<times> heap" where
  "sample_Record_new record listener h =
     (if record = VNull then Inl (Thrown (VStr ''no record''))
      else Inr (Suc (length h),
                h @ [function_object (Lib 0),
                     \<lparr>props = [(KStr ''_record'', DataDesc record True True True),
                               (KStr ''_listener'', DataDesc listener True False True),
                               (KStr ''setAttribute'', DataDesc (VObj (length h)) True True True)],
                      extensible = True, call = None\<rparr>]))"

definition sample_method_of :: "val \<Rightarrow> string \<Rightarrow> heap \<Rightarrow> error + val" where
  "sample_method_of m name h =
     (case m of
        VUndefined \<Rightarrow> Inl TypeError
      | VNull \<Rightarrow> Inl TypeError
      | VObj r \<Rightarrow>
          (case obj_at h r of
             None \<Rightarrow> Inl Dangling
           | Some ob \<Rightarrow>
               (case map_of (props ob) (KStr name) of
                  Some (DataDesc v _ _ _) \<Rightarrow> Inr v
                | _ \<Rightarrow> Inr VUndefined))
      | _ \<Rightarrow> Inr VUndefined)"

definition sample_call_lib :: "val \<Rightarrow> val \<Rightarrow> val list \<Rightarrow> heap \<Rightarrow> error + val \<times> heap" where
  "sample_call_lib f this args h =
     (case f of
        VObj r \<Rightarrow>
          (case obj_at h r of
             None \<Rightarrow> Inl Dangling
           | Some ob \<Rightarrow>
               (case call ob of
                  Some (Lib n) \<Rightarrow>
                    Inr (VObj (length h),
                         h @ [\<lparr>props = [(KStr ''callee'', DataDesc f True True True),
                                        (KStr ''this'', DataDesc this True True True),
                                        (KStr ''record'', DataDesc (arg 0 args) True True True),
                                        (KStr ''options'', DataDesc (arg 1 args) True True True)],
                               extensible = True, call = None\<rparr>])
                | _ \<Rightarrow> Inl TypeError))
      | _ \<Rightarrow> Inl TypeError)"

definition sample_lib :: lib where
  "sample_lib = \<lparr>Record_new = sample_Record_new, method_of = sample_method_of,
                  call_lib = sample_call_lib\<rparr>"

text \<open>The object that a library function of the sample returns for a call.\<close>

definition call_record :: "val \<Rightarrow> val \<Rightarrow> val \<Rightarrow> val \<Rightarrow> obj" where
  "call_record f this r opts =
     \<lparr>props = [(KStr ''callee'', DataDesc f True True True),
               (KStr ''this'', DataDesc this True True True),
               (KStr ''record'', DataDesc r True True True),
               (KStr ''options'', DataDesc opts True True True)],
      extensible = True, call = None\<rparr>"

definition data_object :: "(string \<times> val) list \<Rightarrow> obj" where
  "data_object fs =
     \<lparr>props = map (\<lambda>(k, v). (KStr k, DataDesc v True True True)) fs,
      extensible = True, call = None\<rparr>"

text \<open>
  Two managers (objects 0 and 1) with their methods (objects 2 to 5), a record (object 6)
  and an options object (object 7).
\<close>

definition sample_world :: heap where
  "sample_world =
     [data_object [(''save'', VObj 2), (''delete'', VObj 3)],
      data_object [(''save'', VObj 4), (''delete'', VObj 5)],
      function_object (Lib 1), function_object (Lib 2),
      function_object (Lib 3), function_object (Lib 4),
      data_object [(''type'', VStr ''company'')],
      data_object [(''shouldResolve'', VBool True)]]"

text \<open>
  The first render of a component under the manager 0 with the record 6, as it leaves the
  hook state and the heap: the instance is object 11, the closures are objects 12 and 13,
  the wrapper is object 14.
\<close>

definition sample_instance :: obj where
  "sample_instance =
     \<lparr>props = [(KStr ''_record'', DataDesc (VObj 6) True True True),
               (KStr ''_listener'', DataDesc (VObj 9) True False True),
               (KStr ''setAttribute'', DataDesc (VObj 10) True True True),
               (KStr ''save'', DataDesc (VObj 12) True True True),
               (KStr ''delete'', DataDesc (VObj 13) True True True)],
      extensible = True, call = None\<rparr>"

definition sample_rendered :: heap where
  "sample_rendered =
     sample_world @
     [empty_object, function_object ForceRender, function_object (Lib 0), sample_instance,
      function_object (Save (VObj 0) 11), function_object (Delete (VObj 0) 11),
      \<lparr>props = props sample_instance, extensible = True, call = None\<rparr>]"

definition sample_hooks :: hooks where
  "sample_hooks = \<lparr>state_slot = Some (VObj 8, 9), memo_slot = Some ([VObj 8, VObj 6], VObj 14)\<rparr>"

text \<open>The instance that the constructor builds at a later render, as object 18.\<close>

definition sample_second_instance :: obj where
  "sample_second_instance =
     \<lparr>props = [(KStr ''_record'', DataDesc (VObj 6) True True True),
               (KStr ''_listener'', DataDesc (VObj 9) True False True),
               (KStr ''setAttribute'', DataDesc (VObj 17) True True True)],
      extensible = True, call = None\<rparr>"

section \<open>Properties of \<^verbatim>\<open>assign\<close>\<close>

subsection \<open>The keys of a string wrapper are distinct\<close>

lemma show_nat_nonempty: "show_nat n \<noteq> []"
  by (subst show_nat.simps) simp

lemma digit_inj: "a < 10 \<Longrightarrow> b < 10 \<Longrightarrow> (char_of (48 + a :: nat) :: char) = char_of (48 + b) \<Longrightarrow> a = b"
proof -
  assume a: "a < 10" and b: "b < 10" and e: "(char_of (48 + a :: nat) :: char) = char_of (48 + b)"
  from e have "of_char (char_of (48 + a) :: char) = (of_char (char_of (48 + b) :: char) :: nat)" by simp
  then have "(48 + a) mod 256 = (48 + b) mod 256" by (simp only: of_char_of)
  moreover from a have "(48 + a) mod 256 = 48 + a" by (intro mod_less) arith
  moreover from b have "(48 + b) mod 256 = 48 + b" by (intro mod_less) arith
  ultimately show ?thesis by arith
qed

lemma show_nat_inj: "show_nat m = show_nat n \<Longrightarrow> m = n"
proof (induction m arbitrary: n rule: show_nat.induct)
  case (1 m)
  show ?case
  proof (cases "m < 10")
    case True
    note m = this
    show ?thesis
    proof (cases "n < 10")
      case True
      with m "1.prems" show ?thesis
        by (simp add: show_nat.simps[of m] show_nat.simps[of n] digit_inj)
    next
      case False
      with m "1.prems" show_nat_nonempty[of "n div 10"] show ?thesis
        by (simp add: show_nat.simps[of m] show_nat.simps[of n])
    qed
  next
    case False
    note m = this
    show ?thesis
    proof (cases "n < 10")
      case True
      with m "1.prems" show_nat_nonempty[of "m div 10"] show ?thesis
        by (simp add: show_nat.simps[of m] show_nat.simps[of n])
    next
      case False
      with m "1.prems" have e: "show_nat (m div 10) = show_nat (n div 10)"
        and c: "(char_of (48 + m mod 10) :: char) = char_of (48 + n mod 10)"
        by (simp_all add: show_nat.simps[of m] show_nat.simps[of n])
      from "1.IH"[OF m e] have d: "m div 10 = n div 10" .
      from c have r: "m mod 10 = n mod 10" by (intro digit_inj) simp_all
      have "m = 10 * (m div 10) + m mod 10" by simp
      also have "\<dots> = 10 * (n div 10) + n mod 10" by (simp only: d r)
      also have "\<dots> = n" by simp
      finally show ?thesis .
    qed
  qed
qed

lemma last_show_nat: "last (show_nat n) = char_of (48 + n mod 10)"
  by (subst show_nat.simps) (simp add: show_nat_nonempty)

lemma show_nat_not_length: "show_nat i \<noteq> ''length''"
proof
  assume e: "show_nat i = ''length''"
  have "last (show_nat i) = CHR ''h''" by (simp add: e)
  then have "(char_of (48 + i mod 10) :: char) = CHR ''h''" by (simp only: last_show_nat)
  then have "(of_char (char_of (48 + i mod 10) :: char) :: nat) = of_char (CHR ''h'')" by simp
  then have "(48 + i mod 10) mod 256 = (104::nat)" by (simp only: of_char_of) simp
  moreover have lt: "i mod 10 < 10" by simp
  moreover from lt have "(48 + i mod 10) mod 256 = 48 + i mod 10" by (intro mod_less) arith
  ultimately show False by arith
qed

lemma distinct_string_props: "distinct (map fst (string_props s))"
proof -
  have "inj_on (\<lambda>i. KStr (show_nat i)) (set [0..<length s])"
    by (auto simp: inj_on_def dest: show_nat_inj)
  then have "distinct (map (\<lambda>i. KStr (show_nat i)) [0..<length s])"
    by (simp add: distinct_map)
  moreover have "KStr ''length'' \<notin> (\<lambda>i. KStr (show_nat i)) ` set [0..<length s]"
  proof
    assume "KStr ''length'' \<in> (\<lambda>i. KStr (show_nat i)) ` set [0..<length s]"
    then obtain i where "show_nat i = ''length''" by auto
    then show False by (simp add: show_nat_not_length)
  qed
  ultimately show ?thesis
    by (simp add: string_props_def comp_def)
qed

subsection \<open>Defining a list of properties\<close>

lemma defineProperty_Inr:
  "defineProperty ob k d = Inr ob' \<Longrightarrow> ob' = ob\<lparr>props := AList.update k d (props ob)\<rparr>"
  by (auto simp: defineProperty_def split: if_splits)

lemma defineAll_shape:
  "defineAll ob ds = Inr ob' \<Longrightarrow>
     \<exists>ps. ob' = ob\<lparr>props := ps\<rparr> \<and> map_of ps = map_of (props ob) ++ map_of (rev ds)
        \<and> (distinct (map fst (props ob)) \<longrightarrow> distinct (map fst ps))"
proof (induction ds arbitrary: ob)
  case Nil
  then show ?case by (intro exI[of _ "props ob"]) simp
next
  case (Cons p ds)
  obtain k d where p: "p = (k, d)" by (cases p)
  from Cons.prems p obtain ob1 where d1: "defineProperty ob k d = Inr ob1"
    and rest: "defineAll ob1 ds = Inr ob'"
    by (auto split: sum.splits)
  from defineProperty_Inr[OF d1] have ob1: "ob1 = ob\<lparr>props := AList.update k d (props ob)\<rparr>" .
  from Cons.IH[OF rest] obtain ps where ps: "ob' = ob1\<lparr>props := ps\<rparr>"
    and m: "map_of ps = map_of (props ob1) ++ map_of (rev ds)"
    and di: "distinct (map fst (props ob1)) \<longrightarrow> distinct (map fst ps)"
    by blast
  have "ob' = ob\<lparr>props := ps\<rparr>" using ps ob1 by simp
  moreover have "map_of ps = map_of (props ob) ++ map_of (rev (p # ds))"
    using m ob1 p by (simp add: update_conv' map_add_upd_left[symmetric] fun_eq_iff map_add_def split: option.splits)
  moreover have "distinct (map fst (props ob)) \<longrightarrow> distinct (map fst ps)"
    using di ob1 by (simp add: distinct_update)
  ultimately show ?case by blast
qed

lemma update_absent: "k \<notin> fst ` set al \<Longrightarrow> AList.update k v al = al @ [(k, v)]"
  by (induction al) auto

lemma defineAll_fresh:
  "extensible ob \<Longrightarrow> distinct (map fst ds) \<Longrightarrow> fst ` set ds \<inter> fst ` set (props ob) = {} \<Longrightarrow>
   defineAll ob ds = Inr (ob\<lparr>props := props ob @ ds\<rparr>)"
proof (induction ds arbitrary: ob)
  case Nil
  then show ?case by simp
next
  case (Cons p ds)
  obtain k d where p: "p = (k, d)" by (cases p)
  from Cons.prems p have absent: "k \<notin> fst ` set (props ob)" by auto
  then have none: "map_of (props ob) k = None" by (simp add: map_of_eq_None_iff)
  let ?ob1 = "ob\<lparr>props := props ob @ [(k, d)]\<rparr>"
  from none Cons.prems(1) absent have d1: "defineProperty ob k d = Inr ?ob1"
    by (simp add: defineProperty_def validate_def update_absent)
  have "defineAll ?ob1 ds = Inr (?ob1\<lparr>props := props ?ob1 @ ds\<rparr>)"
    using Cons.prems p by (intro Cons.IH) auto
  with d1 p show ?case by simp
qed

lemma defineAll_Inl: "defineAll ob ds = Inl e \<Longrightarrow> e = TypeError"
  by (induction ob ds rule: defineAll.induct)
     (auto simp: defineProperty_def split: sum.splits if_splits)

lemma map_of_rev_distinct: "distinct (map fst xs) \<Longrightarrow> map_of (rev xs) = map_of xs"
proof (induction xs)
  case Nil
  then show ?case by simp
next
  case (Cons p xs)
  obtain k v where p: "p = (k, v)" by (cases p)
  from Cons.prems p have "map_of xs k = None" by (simp add: map_of_eq_None_iff)
  with Cons p show ?case
    by (auto simp: fun_eq_iff map_add_def split: option.splits)
qed

lemma wf_heap_update:
  "wf_heap h \<Longrightarrow> distinct (map fst (props ob)) \<Longrightarrow> wf_heap (h[t := ob])"
  unfolding wf_heap_def by (auto dest!: set_update_subset_insert[THEN subsetD])

lemma wf_heap_nth: "wf_heap h \<Longrightarrow> r < length h \<Longrightarrow> distinct (map fst (props (h ! r)))"
  by (simp add: wf_heap_def)

lemma descriptors_distinct:
  "wf_heap h \<Longrightarrow> getOwnPropertyDescriptors h s = Inr ds \<Longrightarrow> distinct (map fst ds)"
  by (auto simp: getOwnPropertyDescriptors_def obj_at_def distinct_string_props wf_heap_nth
      split: val.splits if_splits)

lemma descriptors_update_other:
  "s \<noteq> VObj t \<Longrightarrow> getOwnPropertyDescriptors (h[t := ob]) s = getOwnPropertyDescriptors h s"
  by (cases s) (auto simp: getOwnPropertyDescriptors_def obj_at_def nth_list_update)

lemma copied_update: "copied (h[t := ob]) t = copied h t"
  by (rule ext) (simp add: copied_def descriptors_update_other)

lemma typeof_undefined: "typeof h s = ''undefined'' \<longleftrightarrow> s = VUndefined"
  by (simp add: typeof_def obj_at_def split: val.splits)

lemma copied_undefined: "copied h t VUndefined = Map.empty"
  by (simp add: copied_def getOwnPropertyDescriptors_def)

lemma assign_forEach_shape:
  assumes "wf_heap h" and "t < length h" and "assign_forEach h (VObj t) srcs = Inr h'"
  shows "\<exists>ps. h' = h[t := (h ! t)\<lparr>props := ps\<rparr>] \<and> distinct (map fst ps)
            \<and> map_of ps = foldl (++) (map_of (props (h ! t))) (map (copied h t) srcs)"
  using assms
proof (induction srcs arbitrary: h)
  case Nil
  then show ?case
    by (intro exI[of _ "props (h ! t)"]) (simp add: wf_heap_nth)
next
  case (Cons s srcs)
  show ?case
  proof (cases "s = VUndefined")
    case True
    with Cons.prems have "assign_forEach h (VObj t) srcs = Inr h'"
      by (simp add: typeof_undefined)
    from Cons.IH[OF Cons.prems(1,2) this] True show ?thesis
      by (simp add: copied_undefined)
  next
    case False
    with Cons.prems(3) obtain ds h1 where ds: "getOwnPropertyDescriptors h s = Inr ds"
      and dp: "defineProperties h (VObj t) ds = Inr h1"
      and rest: "assign_forEach h1 (VObj t) srcs = Inr h'"
      by (auto simp: typeof_undefined split: sum.splits)
    from dp Cons.prems(2) obtain tg where tg: "defineAll (h ! t) ds = Inr tg" and h1: "h1 = h[t := tg]"
      by (auto simp: defineProperties_def obj_at_def split: sum.splits)
    have dt: "distinct (map fst (props (h ! t)))" using Cons.prems by (simp add: wf_heap_nth)
    from defineAll_shape[OF tg] dt obtain ps1 where tg_eq: "tg = (h ! t)\<lparr>props := ps1\<rparr>"
      and m1: "map_of ps1 = map_of (props (h ! t)) ++ map_of (rev ds)"
      and d1: "distinct (map fst ps1)"
      by blast
    have dds: "distinct (map fst ds)" using Cons.prems(1) ds by (rule descriptors_distinct)
    have m1': "map_of ps1 = map_of (props (h ! t)) ++ copied h t s"
    proof (cases "s = VObj t")
      case True
      with ds Cons.prems(2) have "ds = props (h ! t)"
        by (simp add: getOwnPropertyDescriptors_def obj_at_def)
      with m1 dt show ?thesis using True
        by (auto simp: copied_def map_of_rev_distinct fun_eq_iff map_add_def split: option.splits)
    next
      case False
      with m1 dds ds show ?thesis by (simp add: copied_def map_of_rev_distinct)
    qed
    have wf1: "wf_heap h1" using Cons.prems(1) d1 h1 tg_eq by (simp add: wf_heap_update)
    have t1: "t < length h1" using Cons.prems(2) h1 by simp
    from Cons.IH[OF wf1 t1 rest] obtain ps where
      h': "h' = h1[t := (h1 ! t)\<lparr>props := ps\<rparr>]" and dps: "distinct (map fst ps)"
      and mps: "map_of ps = foldl (++) (map_of (props (h1 ! t))) (map (copied h1 t) srcs)"
      by blast
    have "h' = h[t := (h ! t)\<lparr>props := ps\<rparr>]"
      using h' h1 tg_eq Cons.prems(2) by simp
    moreover have "map_of ps = foldl (++) (map_of (props (h ! t))) (map (copied h t) (s # srcs))"
      using mps h1 tg_eq Cons.prems(2) m1' by (simp add: copied_update)
    ultimately show ?thesis using dps by blast
  qed
qed

lemmas assign_eval = assign_def typeof_def obj_at_def getOwnPropertyDescriptors_def
  defineProperties_def defineProperty_def validate_def compatible_def empty_object_def

lemma in_heap_update: "in_heap (h[t := ob]) = in_heap h"
  by (rule ext) (simp add: in_heap_def split: val.splits)

lemma assign_forEach_error:
  assumes "t < length h" and "list_all (in_heap h) srcs"
    and "assign_forEach h (VObj t) srcs = Inl e"
  shows "e = TypeError"
  using assms
proof (induction srcs arbitrary: h)
  case Nil
  then show ?case by simp
next
  case (Cons s srcs)
  show ?case
  proof (cases "s = VUndefined")
    case True
    with Cons.prems have "assign_forEach h (VObj t) srcs = Inl e"
      by (simp add: typeof_undefined)
    with Cons.IH[of h] Cons.prems show ?thesis by simp
  next
    case False
    show ?thesis
    proof (cases "getOwnPropertyDescriptors h s")
      case (Inl e1)
      with Cons.prems False have "e1 = e" by (simp add: typeof_undefined)
      moreover from Inl Cons.prems(2) have "e1 = TypeError"
        by (cases s) (auto simp: getOwnPropertyDescriptors_def obj_at_def in_heap_def split: if_splits)
      ultimately show ?thesis by simp
    next
      case (Inr ds)
      show ?thesis
      proof (cases "defineAll (h ! t) ds")
        case (Inl e1)
        then have "e1 = TypeError" by (rule defineAll_Inl)
        with Inl Inr Cons.prems False show ?thesis
          by (simp add: typeof_undefined defineProperties_def obj_at_def)
      next
        case tg: (Inr tg)
        with Inr Cons.prems False have rest: "assign_forEach (h[t := tg]) (VObj t) srcs = Inl e"
          by (simp add: typeof_undefined defineProperties_def obj_at_def)
        from Cons.prems have "t < length (h[t := tg])"
          and "list_all (in_heap (h[t := tg])) srcs"
          by (simp_all add: in_heap_update)
        from Cons.IH[OF this rest] show ?thesis .
      qed
    qed
  qed
qed

subsection \<open>When the loop returns\<close>

lemma accepted_iff:
  "accepted target ds \<longleftrightarrow>
     (\<forall>n<length ds. validate (current target (take n ds) (fst (ds ! n))) (extensible target)
                        (snd (ds ! n)))"
  by (auto simp: accepted_def list_all_iff)

lemma current_Nil: "current target [] k = map_of (props target) k"
  by (simp add: current_def)

lemma current_Cons:
  "current target ((k, d) # earlier) k'
     = current (target\<lparr>props := AList.update k d (props target)\<rparr>) earlier k'"
  by (simp add: current_def update_conv' map_add_def split: option.splits)

lemma defineAll_append:
  "defineAll ob (xs @ ys)
     = (case defineAll ob xs of Inl e \<Rightarrow> Inl e | Inr ob' \<Rightarrow> defineAll ob' ys)"
  by (induction ob xs rule: defineAll.induct) (auto split: sum.splits)

lemma defineAll_iff_accepted: "(\<exists>ob'. defineAll ob ds = Inr ob') \<longleftrightarrow> accepted ob ds"
proof (induction ds arbitrary: ob)
  case Nil
  then show ?case by (simp add: accepted_def)
next
  case (Cons p ds)
  obtain k d where p: "p = (k, d)" by (cases p)
  let ?ob1 = "ob\<lparr>props := AList.update k d (props ob)\<rparr>"
  have acc: "accepted ob (p # ds) \<longleftrightarrow>
               validate (map_of (props ob) k) (extensible ob) d \<and> accepted ?ob1 ds"
    unfolding accepted_iff p
    by (simp add: All_less_Suc2 current_Nil current_Cons)
  show ?case
  proof (cases "validate (map_of (props ob) k) (extensible ob) d")
    case True
    then have "defineProperty ob k d = Inr ?ob1" by (simp add: defineProperty_def)
    then have "(\<exists>ob'. defineAll ob (p # ds) = Inr ob') \<longleftrightarrow> (\<exists>ob'. defineAll ?ob1 ds = Inr ob')"
      by (simp add: p)
    with Cons.IH[of ?ob1] acc True show ?thesis by simp
  next
    case False
    then have "defineProperty ob k d = Inl TypeError" by (simp add: defineProperty_def)
    then have "defineAll ob (p # ds) = Inl TypeError" by (simp add: p)
    with acc False show ?thesis by simp
  qed
qed

lemma compatible_refl: "\<not> configurable d \<Longrightarrow> compatible d d"
  by (cases d) (simp_all add: compatible_def)

lemma defineProperty_same:
  "map_of (props ob) k = Some d \<Longrightarrow> defineProperty ob k d = Inr ob"
  by (cases "configurable d") (simp_all add: defineProperty_def validate_def compatible_refl update_triv)

lemma defineAll_same:
  "distinct (map fst (props ob)) \<Longrightarrow> set ds \<subseteq> set (props ob) \<Longrightarrow> defineAll ob ds = Inr ob"
proof (induction ds)
  case Nil
  then show ?case by simp
next
  case (Cons p ds)
  obtain k d where p: "p = (k, d)" by (cases p)
  with Cons.prems have "map_of (props ob) k = Some d" by simp
  then have "defineProperty ob k d = Inr ob" by (rule defineProperty_same)
  with Cons p show ?case by simp
qed

lemma definitions_Cons:
  "definitions h t (s # srcs)
     = (if s = VObj t then []
        else (case getOwnPropertyDescriptors h s of Inr ds \<Rightarrow> ds | Inl _ \<Rightarrow> []))
       @ definitions h t srcs"
  by (simp add: definitions_def)

lemma definitions_update: "definitions (h[t := ob]) t srcs = definitions h t srcs"
  by (induction srcs) (simp_all add: definitions_Cons descriptors_update_other definitions_def)

lemma descriptors_in_heap:
  "in_heap h s \<Longrightarrow> s \<noteq> VUndefined \<Longrightarrow> s \<noteq> VNull \<Longrightarrow>
   \<exists>ds. getOwnPropertyDescriptors h s = Inr ds"
  by (cases s) (simp_all add: getOwnPropertyDescriptors_def obj_at_def in_heap_def)

lemma assign_forEach_returns_iff:
  assumes "wf_heap h" and "t < length h" and "list_all (in_heap h) srcs"
  shows "(\<exists>h'. assign_forEach h (VObj t) srcs = Inr h')
           \<longleftrightarrow> VNull \<notin> set srcs \<and> (\<exists>ob'. defineAll (h ! t) (definitions h t srcs) = Inr ob')"
  using assms
proof (induction srcs arbitrary: h)
  case Nil
  then show ?case by (simp add: definitions_def)
next
  case (Cons s srcs)
  from Cons.prems have ih: "in_heap h s" and ihs: "list_all (in_heap h) srcs" by simp_all
  note IH = Cons.IH[OF Cons.prems(1,2) ihs]
  consider (undef) "s = VUndefined" | (null) "s = VNull" | (self) "s = VObj t"
    | (other) "s \<noteq> VUndefined" "s \<noteq> VNull" "s \<noteq> VObj t"
    by blast
  then show ?case
  proof cases
    case undef
    then show ?thesis using IH
      by (simp add: typeof_undefined definitions_Cons getOwnPropertyDescriptors_def)
  next
    case null
    then show ?thesis
      by (simp add: typeof_undefined getOwnPropertyDescriptors_def)
  next
    case self
    have d: "distinct (map fst (props (h ! t)))" using Cons.prems by (simp add: wf_heap_nth)
    have "defineAll (h ! t) (props (h ! t)) = Inr (h ! t)"
      using d by (rule defineAll_same) simp
    then have "assign_forEach h (VObj t) (s # srcs) = assign_forEach h (VObj t) srcs"
      using self Cons.prems(2)
      by (simp add: typeof_undefined getOwnPropertyDescriptors_def obj_at_def defineProperties_def)
    then show ?thesis using IH self by (simp add: definitions_Cons)
  next
    case other
    from descriptors_in_heap[OF ih other(1,2)] obtain ds
      where ds: "getOwnPropertyDescriptors h s = Inr ds" by blast
    have defs: "definitions h t (s # srcs) = ds @ definitions h t srcs"
      using other ds by (simp add: definitions_Cons)
    show ?thesis
    proof (cases "defineAll (h ! t) ds")
      case (Inl e)
      then have "assign_forEach h (VObj t) (s # srcs) = Inl e"
        using other ds Cons.prems(2)
        by (simp add: typeof_undefined defineProperties_def obj_at_def)
      then show ?thesis using Inl by (simp add: defs defineAll_append)
    next
      case (Inr tg)
      let ?h1 = "h[t := tg]"
      have step: "assign_forEach h (VObj t) (s # srcs) = assign_forEach ?h1 (VObj t) srcs"
        using other ds Inr Cons.prems(2)
        by (simp add: typeof_undefined defineProperties_def obj_at_def)
      have dt: "distinct (map fst (props (h ! t)))" using Cons.prems by (simp add: wf_heap_nth)
      from defineAll_shape[OF Inr] dt have "distinct (map fst (props tg))" by auto
      then have wf1: "wf_heap ?h1" using Cons.prems(1) by (rule wf_heap_update[rotated])
      have t1: "t < length ?h1" using Cons.prems(2) by simp
      have in1: "list_all (in_heap ?h1) srcs" using ihs by (simp add: in_heap_update)
      from Cons.IH[OF wf1 t1 in1]
      have "(\<exists>h'. assign_forEach ?h1 (VObj t) srcs = Inr h')
              \<longleftrightarrow> VNull \<notin> set srcs \<and> (\<exists>ob'. defineAll tg (definitions h t srcs) = Inr ob')"
        using Cons.prems(2) by (simp add: definitions_update)
      then show ?thesis using step Inr other by (simp add: defs defineAll_append)
    qed
  qed
qed

subsection \<open>The result of \<^verbatim>\<open>assign\<close>\<close>

text \<open>
  Claim C6, as stated: for every target object and every list of sources, \<^verbatim>\<open>assign\<close>
  returns the target it was given. It does not: a \<^verbatim>\<open>null\<close> source passes the
  \<^verbatim>\<open>typeof\<close> test and makes \<^verbatim>\<open>Object.getOwnPropertyDescriptors\<close> throw, and a later
  source cannot override a property that an earlier source defined as not configurable
  (here the property \<^verbatim>\<open>x\<close> of a frozen object, then \<^verbatim>\<open>{x: 2}\<close>).
\<close>

theorem assign_counterexample:
  "assign [empty_object] (VObj 0) [VNull] = Inl TypeError
   \<and> assign [empty_object, frozen_source, plain_x2] (VObj 0) [VObj 1, VObj 2] = Inl TypeError"
  by (simp add: assign_eval frozen_source_def plain_x2_def)

text \<open>
  Claim C6, amended: for a target object \<open>t\<close> and any sources (values of the heap),
  \<^verbatim>\<open>assign\<close> returns exactly when no source is \<^verbatim>\<open>null\<close> and the target accepts every
  definition that the sources ask for, in order (a new key needs an extensible target; a
  property that is not configurable can only be redefined as it is, or with another value
  while it is writable). It then returns the target it was given, and the heap differs
  from the old one in the own properties of the target only: they are the old ones
  overridden, source by source in argument order, by the own property descriptors of
  every source that is not \<^verbatim>\<open>undefined\<close>, each descriptor taken over as it is (data or
  accessor, with its attributes). In every other case it throws a TypeError.
\<close>

theorem assign_copies_descriptors:
  assumes "wf_heap h" and "t < length h" and "list_all (in_heap h) srcs"
  shows "(VNull \<notin> set srcs \<and> accepted (h ! t) (definitions h t srcs) \<longrightarrow>
            (\<exists>ps. assign h (VObj t) srcs = Inr (VObj t, h[t := (h ! t)\<lparr>props := ps\<rparr>])
                 \<and> distinct (map fst ps)
                 \<and> map_of ps = foldl (++) (map_of (props (h ! t))) (map (copied h t) srcs)))
       \<and> (\<not> (VNull \<notin> set srcs \<and> accepted (h ! t) (definitions h t srcs)) \<longrightarrow>
            assign h (VObj t) srcs = Inl TypeError)"
proof (intro conjI impI)
  assume a: "VNull \<notin> set srcs \<and> accepted (h ! t) (definitions h t srcs)"
  with assign_forEach_returns_iff[OF assms] defineAll_iff_accepted[of "h ! t" "definitions h t srcs"]
  obtain h' where r: "assign_forEach h (VObj t) srcs = Inr h'" by blast
  from assign_forEach_shape[OF assms(1,2) r] obtain ps
    where "h' = h[t := (h ! t)\<lparr>props := ps\<rparr>]" and "distinct (map fst ps)"
      and "map_of ps = foldl (++) (map_of (props (h ! t))) (map (copied h t) srcs)"
    by blast
  with r show "\<exists>ps. assign h (VObj t) srcs = Inr (VObj t, h[t := (h ! t)\<lparr>props := ps\<rparr>])
                 \<and> distinct (map fst ps)
                 \<and> map_of ps = foldl (++) (map_of (props (h ! t))) (map (copied h t) srcs)"
    by (auto simp: assign_def)
next
  assume n: "\<not> (VNull \<notin> set srcs \<and> accepted (h ! t) (definitions h t srcs))"
  with assign_forEach_returns_iff[OF assms] defineAll_iff_accepted[of "h ! t" "definitions h t srcs"]
  have "\<not> (\<exists>h'. assign_forEach h (VObj t) srcs = Inr h')" by blast
  then obtain e where e: "assign_forEach h (VObj t) srcs = Inl e"
    by (cases "assign_forEach h (VObj t) srcs") auto
  from assign_forEach_error[OF assms(2,3) e] e
  show "assign h (VObj t) srcs = Inl TypeError" by (simp add: assign_def)
qed

theorem assign_copies_descriptors_witness:
  "wf_heap frozen_heap \<and> 0 < length frozen_heap
   \<and> list_all (in_heap frozen_heap) [VObj 1, VUndefined, VStr ''ab'']
   \<and> VNull \<notin> set [VObj 1, VUndefined, VStr ''ab'']
   \<and> accepted (frozen_heap ! 0) (definitions frozen_heap 0 [VObj 1, VUndefined, VStr ''ab''])
   \<and> (\<exists>ps. assign frozen_heap (VObj 0) [VObj 1, VUndefined, VStr ''ab'']
               = Inr (VObj 0, frozen_heap[0 := (frozen_heap ! 0)\<lparr>props := ps\<rparr>])
            \<and> distinct (map fst ps)
            \<and> map_of ps = foldl (++) (map_of (props (frozen_heap ! 0)))
                             (map (copied frozen_heap 0) [VObj 1, VUndefined, VStr ''ab'']))
   \<and> assign frozen_heap (VObj 0) [VObj 1, VUndefined, VStr ''ab'']
       = Inr (VObj 0,
              [\<lparr>props = [(KStr ''x'', DataDesc (VNum 1) False True False),
                         (KStr ''0'', DataDesc (VStr ''a'') False True False),
                         (KStr ''1'', DataDesc (VStr ''b'') False True False),
                         (KStr ''length'', DataDesc (VNum 2) False False False)],
                extensible = True, call = None\<rparr>,
               frozen_source])
   \<and> assign sample_heap (VObj 0) [VObj 1, VUndefined, VObj 2]
       = Inr (VObj 0, sample_heap[0 := \<lparr>props = [(KStr ''x'', DataDesc (VNum 2) True True True),
                              (KStr ''y'', AccessorDesc (VObj 3) VUndefined True True)],
                    extensible = True, call = None\<rparr>])
   \<and> wf_heap clash_heap \<and> 0 < length clash_heap
   \<and> list_all (in_heap clash_heap) [VObj 1, VObj 2]
   \<and> \<not> accepted (clash_heap ! 0) (definitions clash_heap 0 [VObj 1, VObj 2])
   \<and> assign clash_heap (VObj 0) [VObj 1, VObj 2] = Inl TypeError"
proof -
  have wf1: "wf_heap frozen_heap"
    by (simp add: wf_heap_def frozen_heap_def empty_object_def frozen_source_def)
  have len1: "0 < length frozen_heap" by (simp add: frozen_heap_def)
  have in1: "list_all (in_heap frozen_heap) [VObj 1, VUndefined, VStr ''ab'']"
    by (simp add: in_heap_def frozen_heap_def)
  have nn1: "VNull \<notin> set [VObj 1, VUndefined, VStr ''ab'']" by simp
  have acc1: "accepted (frozen_heap ! 0) (definitions frozen_heap 0 [VObj 1, VUndefined, VStr ''ab''])"
    by code_simp
  note t1 = assign_copies_descriptors[OF wf1 len1 in1, THEN conjunct1, rule_format, OF conjI,
      OF nn1 acc1]
  have ev1: "assign frozen_heap (VObj 0) [VObj 1, VUndefined, VStr ''ab'']
       = Inr (VObj 0,
              [\<lparr>props = [(KStr ''x'', DataDesc (VNum 1) False True False),
                         (KStr ''0'', DataDesc (VStr ''a'') False True False),
                         (KStr ''1'', DataDesc (VStr ''b'') False True False),
                         (KStr ''length'', DataDesc (VNum 2) False False False)],
                extensible = True, call = None\<rparr>,
               frozen_source])"
    by code_simp
  have ev2: "assign sample_heap (VObj 0) [VObj 1, VUndefined, VObj 2]
       = Inr (VObj 0, sample_heap[0 := \<lparr>props = [(KStr ''x'', DataDesc (VNum 2) True True True),
                              (KStr ''y'', AccessorDesc (VObj 3) VUndefined True True)],
                    extensible = True, call = None\<rparr>])"
    by (simp add: assign_eval sample_heap_def getter_source_def plain_x2_def function_object_def)
  have wf3: "wf_heap clash_heap"
    by (simp add: wf_heap_def clash_heap_def empty_object_def frozen_source_def plain_x2_def)
  have len3: "0 < length clash_heap" by (simp add: clash_heap_def)
  have in3: "list_all (in_heap clash_heap) [VObj 1, VObj 2]"
    by (simp add: in_heap_def clash_heap_def)
  have nacc3: "\<not> accepted (clash_heap ! 0) (definitions clash_heap 0 [VObj 1, VObj 2])"
    by code_simp
  from assign_copies_descriptors[OF wf3 len3 in3, THEN conjunct2] nacc3
  have ev3: "assign clash_heap (VObj 0) [VObj 1, VObj 2] = Inl TypeError" by blast
  from wf1 len1 in1 nn1 acc1 t1 ev1 ev2 wf3 len3 in3 nacc3 ev3
  show ?thesis by (intro conjI)
qed

section \<open>Properties of the hook\<close>

subsection \<open>One render\<close>

lemma useCrud_unfold:
  "useCrud L e args hs h =
     useMemo (useCrud_memo L (CrudContext e) (arg 0 args) (render_setter hs h))
       [render_reference hs h, arg 0 args] (render_hooks hs h) (render_heap hs h)"
  by (cases "state_slot hs")
     (auto simp: useCrud_def useContext_def alloc_def useState_def render_setter_def
        render_reference_def render_hooks_def render_heap_def Let_def)

lemma memo_slot_render_hooks: "memo_slot (render_hooks hs h) = memo_slot hs"
  by (simp add: render_hooks_def split: option.splits)

lemma useCrud_recomputes:
  "recomputes hs h (arg 0 args) \<Longrightarrow>
   useCrud L e args hs h =
     (case useCrud_memo L (CrudContext e) (arg 0 args) (render_setter hs h) (render_heap hs h) of
        Inl er \<Rightarrow> Inl er
      | Inr (v, h') \<Rightarrow>
          Inr (v, (render_hooks hs h)\<lparr>memo_slot := Some ([render_reference hs h, arg 0 args], v)\<rparr>, h'))"
  by (auto simp: useCrud_unfold useMemo_def Let_def memo_slot_render_hooks recomputes_def
      split: option.splits)

lemma set_prop_new:
  assumes "i < length h" and "extensible (h ! i)" and "map_of (props (h ! i)) k = None"
  shows "set_prop L h i k v =
           Inr (h[i := (h ! i)\<lparr>props := props (h ! i) @ [(k, DataDesc v True True True)]\<rparr>])"
proof -
  from assms(3) have "k \<notin> fst ` set (props (h ! i))" by (simp add: map_of_eq_None_iff)
  then have "AList.update k (DataDesc v True True True) (props (h ! i))
               = props (h ! i) @ [(k, DataDesc v True True True)]"
    by (rule update_absent)
  with assms show ?thesis by (simp add: set_prop_def obj_at_def)
qed

lemma assign_fresh:
  assumes "i < length h" and "distinct (map fst (props (h ! i)))"
  shows "assign (h @ [empty_object]) (VObj (length h)) [VObj i]
           = Inr (VObj (length h), h @ [\<lparr>props = props (h ! i), extensible = True, call = None\<rparr>])"
proof -
  have "defineAll empty_object (props (h ! i))
          = Inr (empty_object\<lparr>props := props empty_object @ props (h ! i)\<rparr>)"
    using assms(2) by (intro defineAll_fresh) (simp_all add: empty_object_def)
  then show ?thesis using assms(1)
    by (simp add: assign_def typeof_def obj_at_def getOwnPropertyDescriptors_def
        defineProperties_def nth_append empty_object_def)
qed

lemma useCrud_memo_result:
  assumes ctor: "Record_new L record (VObj st) h = Inr (i, h1)" and inst: "plain_instance h1 i"
  shows "useCrud_memo L m record st h =
           Inr (VObj (length h1 + 2),
                h1[i := with_methods i h1]
                  @ [function_object (Save m i), function_object (Delete m i),
                     \<lparr>props = props (with_methods i h1), extensible = True, call = None\<rparr>])"
proof -
  from inst have i: "i < length h1" and ext: "extensible (h1 ! i)"
    and dist: "distinct (map fst (props (h1 ! i)))"
    and ns: "map_of (props (h1 ! i)) (KStr ''save'') = None"
    and nd: "map_of (props (h1 ! i)) (KStr ''delete'') = None"
    by (auto simp: plain_instance_def obj_at_def split: if_splits)
  let ?n = "length h1"
  let ?h2 = "h1 @ [function_object (Save m i)]"
  let ?o3 = "(h1 ! i)\<lparr>props := props (h1 ! i) @ [(KStr ''save'', DataDesc (VObj ?n) True True True)]\<rparr>"
  let ?h3 = "?h2[i := ?o3]"
  have s1: "set_prop L ?h2 i (KStr ''save'') (VObj ?n) = Inr ?h3"
    using i ext ns by (subst set_prop_new) (simp_all add: nth_append)
  let ?h4 = "?h3 @ [function_object (Delete m i)]"
  let ?h5 = "?h4[i := with_methods i h1]"
  have s2: "set_prop L ?h4 i (KStr ''delete'') (VObj (Suc ?n)) = Inr ?h5"
    using i ext nd by (subst set_prop_new) (simp_all add: nth_append with_methods_def)
  have d5: "distinct (map fst (props (?h5 ! i)))"
    using i dist ns nd by (simp add: with_methods_def map_of_eq_None_iff)
  have i5: "i < length ?h5" using i by simp
  have l5: "length ?h5 = ?n + 2" by simp
  from assign_fresh[OF i5 d5]
  have a: "assign (?h5 @ [empty_object]) (VObj (?n + 2)) [VObj i]
      = Inr (VObj (?n + 2), ?h5 @ [\<lparr>props = props (with_methods i h1), extensible = True, call = None\<rparr>])"
    using i by (simp only: l5) simp
  have h5: "?h5 = h1[i := with_methods i h1] @ [function_object (Save m i), function_object (Delete m i)]"
    using i by (simp add: list_update_append)
  show ?thesis
    using ctor s1 s2 a unfolding h5
    by (simp add: useCrud_memo_def alloc_def)
qed

lemma length_render_heap: "length h < length (render_heap hs h)"
  by (simp add: render_heap_def split: option.splits)

lemma useCrud_render:
  assumes cls: "Record_class L" and re: "recomputes hs h record"
    and ctor: "Record_new L record (VObj (render_setter hs h)) (render_heap hs h) = Inr (i, h1)"
  shows "useCrud L e (record # rest) hs h =
           Inr (VObj (Suc (Suc (length h1))),
                (render_hooks hs h)\<lparr>memo_slot :=
                   Some ([render_reference hs h, record], VObj (Suc (Suc (length h1))))\<rparr>,
                rendered (CrudContext e) i h1)"
proof -
  from cls ctor have inst: "plain_instance h1 i" by (auto simp: Record_class_def)
  have a0: "arg 0 (record # rest) = record" by (simp add: arg_def)
  from re have "recomputes hs h (arg 0 (record # rest))" by (simp only: a0)
  from useCrud_recomputes[OF this, of L e] useCrud_memo_result[OF ctor inst, of "CrudContext e"]
  show ?thesis by (simp add: a0 rendered_def)
qed

lemma useCrud_render_error:
  assumes re: "recomputes hs h record"
    and ctor: "Record_new L record (VObj (render_setter hs h)) (render_heap hs h) = Inl er"
  shows "useCrud L e (record # rest) hs h = Inl er"
proof -
  have a0: "arg 0 (record # rest) = record" by (simp add: arg_def)
  from re have "recomputes hs h (arg 0 (record # rest))" by (simp only: a0)
  from useCrud_recomputes[OF this, of L e] ctor
  show ?thesis by (simp add: a0 useCrud_memo_def)
qed

lemma rendered_nth:
  assumes "i < length h1"
  shows "length (rendered m i h1) = Suc (Suc (Suc (length h1)))"
    and "rendered m i h1 ! i = with_methods i h1"
    and "rendered m i h1 ! length h1 = function_object (Save m i)"
    and "rendered m i h1 ! Suc (length h1) = function_object (Delete m i)"
    and "rendered m i h1 ! Suc (Suc (length h1))
           = \<lparr>props = props (with_methods i h1), extensible = True, call = None\<rparr>"
    and "\<And>r. r < length h1 \<Longrightarrow> r \<noteq> i \<Longrightarrow> rendered m i h1 ! r = h1 ! r"
  using assms by (simp_all add: rendered_def nth_append)

lemma with_methods_lookup:
  assumes "map_of (props (h1 ! i)) (KStr ''save'') = None"
    and "map_of (props (h1 ! i)) (KStr ''delete'') = None"
  shows "map_of (props (with_methods i h1)) (KStr ''save'')
           = Some (DataDesc (VObj (length h1)) True True True)"
    and "map_of (props (with_methods i h1)) (KStr ''delete'')
           = Some (DataDesc (VObj (Suc (length h1))) True True True)"
    and "\<And>k. k \<noteq> KStr ''save'' \<Longrightarrow> k \<noteq> KStr ''delete'' \<Longrightarrow>
           map_of (props (with_methods i h1)) k = map_of (props (h1 ! i)) k"
  using assms by (simp_all add: with_methods_def map_add_def split: option.splits)

lemma plain_instanceD:
  assumes "plain_instance h1 i"
  shows "i < length h1" and "extensible (h1 ! i)"
    and "map_of (props (h1 ! i)) (KStr ''save'') = None"
    and "map_of (props (h1 ! i)) (KStr ''delete'') = None"
  using assms by (auto simp: plain_instance_def obj_at_def split: if_splits)

lemma call_save_rendered:
  assumes inst: "plain_instance h1 i"
  shows "call_method L (Suc (Suc (length h1))) (KStr ''save'') args (rendered m i h1)
           = CrudRecord_save L m i (arg 0 args) (rendered m i h1)"
proof -
  note d = plain_instanceD[OF inst]
  note n = rendered_nth[OF d(1), where m = m]
  note w = with_methods_lookup[OF d(3,4)]
  have g: "get_prop L (rendered m i h1) (Suc (Suc (length h1))) (KStr ''save'')
             = Inr (VObj (length h1), rendered m i h1)"
    by (simp add: get_prop_def obj_at_def n w)
  show ?thesis
    by (simp add: call_method_def g call_function_def obj_at_def n function_object_def)
qed

lemma call_delete_rendered:
  assumes inst: "plain_instance h1 i"
  shows "call_method L (Suc (Suc (length h1))) (KStr ''delete'') args (rendered m i h1)
           = CrudRecord_delete L m i (arg 0 args) (rendered m i h1)"
proof -
  note d = plain_instanceD[OF inst]
  note n = rendered_nth[OF d(1), where m = m]
  note w = with_methods_lookup[OF d(3,4)]
  have g: "get_prop L (rendered m i h1) (Suc (Suc (length h1))) (KStr ''delete'')
             = Inr (VObj (Suc (length h1)), rendered m i h1)"
    by (simp add: get_prop_def obj_at_def n w)
  show ?thesis
    by (simp add: call_method_def g call_function_def obj_at_def n function_object_def)
qed

lemma call_save_rendered_1:
  "plain_instance h1 i \<Longrightarrow>
   call_method L (Suc (Suc (length h1))) (KStr ''save'') [options] (rendered m i h1)
     = CrudRecord_save L m i options (rendered m i h1)"
  by (simp add: call_save_rendered arg_def)

lemma call_delete_rendered_1:
  "plain_instance h1 i \<Longrightarrow>
   call_method L (Suc (Suc (length h1))) (KStr ''delete'') [options] (rendered m i h1)
     = CrudRecord_delete L m i options (rendered m i h1)"
  by (simp add: call_delete_rendered arg_def)

lemma record_field_rendered:
  assumes inst: "plain_instance h1 i"
    and f: "map_of (props (h1 ! i)) (KStr ''_record'') = Some (DataDesc x wr en cf)"
  shows "get_prop L (rendered m i h1) i (KStr ''_record'') = Inr (x, rendered m i h1)"
proof -
  note d = plain_instanceD[OF inst]
  note n = rendered_nth[OF d(1), where m = m]
  note w = with_methods_lookup[OF d(3,4)]
  show ?thesis using f d(1) by (simp add: get_prop_def obj_at_def n w)
qed

lemma render_heap_nth: "s < length h \<Longrightarrow> render_heap hs h ! s = h ! s"
  by (simp add: render_heap_def nth_append split: option.splits)

lemma useCrud_frame:
  assumes cls: "Record_class L"
    and fr: "\<forall>r l hh i h1. Record_new L r l hh = Inr (i, h1) \<and> s < length hh
               \<longrightarrow> i \<noteq> s \<and> h1 ! s = hh ! s"
    and s: "s < length h"
    and run: "useCrud L e (record # rest) hs h = Inr (v, hs', h')"
  shows "h' ! s = h ! s"
proof (cases "recomputes hs h record")
  case True
  show ?thesis
  proof (cases "Record_new L record (VObj (render_setter hs h)) (render_heap hs h)")
    case (Inl er)
    from useCrud_render_error[OF True Inl, of e rest] run show ?thesis by simp
  next
    case (Inr p)
    obtain i h1 where p: "p = (i, h1)" by (cases p)
    note ctor = Inr[unfolded p]
    from s length_render_heap[of h hs] have s': "s < length (render_heap hs h)" by simp
    from fr ctor s' have i: "i \<noteq> s" and k: "h1 ! s = render_heap hs h ! s" by blast+
    from cls ctor have "length (render_heap hs h) \<le> length h1 \<and> plain_instance h1 i"
      unfolding Record_class_def by blast
    then have len: "length (render_heap hs h) \<le> length h1" and inst: "plain_instance h1 i"
      by simp_all
    note d = plain_instanceD[OF inst]
    from s' len have s1: "s < length h1" by simp
    from run have "h' = rendered (CrudContext e) i h1"
      unfolding useCrud_render[OF cls True ctor] by simp
    with rendered_nth(6)[OF d(1) s1, where m = "CrudContext e"] i k render_heap_nth[OF s, of hs]
    show ?thesis by simp
  qed
next
  case False
  have a0: "arg 0 (record # rest) = record" by (simp add: arg_def)
  from False run have "h' = render_heap hs h"
    by (auto simp: useCrud_unfold a0 useMemo_def Let_def recomputes_def memo_slot_render_hooks
        split: option.splits if_splits)
  with render_heap_nth[OF s, of hs] show ?thesis by simp
qed

subsection \<open>The sample library\<close>

lemma Record_class_sample: "Record_class sample_lib"
  by (auto simp: Record_class_def sample_lib_def sample_Record_new_def plain_instance_def
      obj_at_def nth_append split: if_splits)

lemma recomputes_unmounted: "recomputes unmounted h record"
  by (simp add: recomputes_def unmounted_def)

lemma sample_world_length: "length sample_world = 8"
  by (simp add: sample_world_def)

lemma sample_ctor:
  "Record_new sample_lib (VObj 6) (VObj (render_setter unmounted sample_world))
     (render_heap unmounted sample_world)
   = Inr (11, sample_world @ [empty_object, function_object ForceRender, function_object (Lib 0),
       \<lparr>props = [(KStr ''_record'', DataDesc (VObj 6) True True True),
               (KStr ''_listener'', DataDesc (VObj 9) True False True),
               (KStr ''setAttribute'', DataDesc (VObj 10) True True True)],
        extensible = True, call = None\<rparr>])"
  by (simp add: sample_lib_def sample_Record_new_def render_setter_def render_heap_def
      unmounted_def sample_world_length)

lemma first_render:
  "useCrud sample_lib \<lparr>CrudContext = VObj 0, store = VUndefined\<rparr> [VObj 6] unmounted sample_world
     = Inr (VObj 14, sample_hooks, sample_rendered)"
  unfolding useCrud_render[OF Record_class_sample recomputes_unmounted sample_ctor]
  by (simp add: rendered_def with_methods_def sample_world_length render_hooks_def
      render_reference_def unmounted_def sample_hooks_def sample_rendered_def sample_instance_def
      nth_append list_update_append eval_nat_numeral)

lemma sample_rendered_length: "length sample_rendered = 15"
  by (simp add: sample_rendered_def sample_world_length)

lemma second_render:
  "useCrud sample_lib \<lparr>CrudContext = VObj 1, store = VUndefined\<rparr> [VObj 6] sample_hooks sample_rendered
     = Inr (VObj 14, sample_hooks, sample_rendered @ [empty_object])"
  by (simp add: useCrud_def arg_def useContext_def alloc_def useState_def useMemo_def Let_def
      sample_hooks_def)

lemma sample_ctor_null:
  "Record_new sample_lib VNull (VObj (render_setter unmounted sample_world))
     (render_heap unmounted sample_world) = Inl (Thrown (VStr ''no record''))"
  by (simp add: sample_lib_def sample_Record_new_def)

lemma render_mounted:
  assumes "state_slot hs = Some (r, st)"
  shows "render_reference hs h = r" and "render_setter hs h = st"
    and "render_heap hs h = h @ [empty_object]" and "render_hooks hs h = hs"
  using assms
  by (simp_all add: render_reference_def render_setter_def render_heap_def render_hooks_def)

lemma sample_ctor_keeps:
  "\<forall>r l hh i h1. Record_new sample_lib r l hh = Inr (i, h1) \<and> s < length hh
      \<longrightarrow> i \<noteq> s \<and> h1 ! s = hh ! s"
  by (auto simp: sample_lib_def sample_Record_new_def nth_append split: if_splits)

subsection \<open>Delegation to the manager\<close>

text \<open>
  Claim C1 says that \<^verbatim>\<open>save(options)\<close> and \<^verbatim>\<open>delete(options)\<close> on the wrapper that
  \<^verbatim>\<open>useCrud\<close> returns call the method of the manager of the context with the field
  \<^verbatim>\<open>_record\<close> of the instance and the options, and return what it returns. The record
  and the options are passed on as they are, but the manager is the one that the closures
  captured when the wrapper was built: \<^verbatim>\<open>crudManager\<close> is missing from the dependencies
  of \<^verbatim>\<open>useMemo\<close>. Here the component is first rendered under the manager 0 and then,
  with the same record, under the manager 1. The second render returns the wrapper 14 of
  the first; its \<^verbatim>\<open>save\<close> and \<^verbatim>\<open>delete\<close> call the functions 2 and 3 with the manager 0
  as receiver, where the methods of the manager of the context are the functions 4 and 5
  and a call of them has the manager 1 as receiver.
\<close>

theorem cached_wrapper_calls_earlier_manager:
  "useCrud sample_lib \<lparr>CrudContext = VObj 0, store = VUndefined\<rparr> [VObj 6] unmounted sample_world
     = Inr (VObj 14, sample_hooks, sample_rendered)
   \<and> useCrud sample_lib \<lparr>CrudContext = VObj 1, store = VUndefined\<rparr> [VObj 6] sample_hooks
       sample_rendered
     = Inr (VObj 14, sample_hooks, sample_rendered @ [empty_object])
   \<and> call_method sample_lib 14 (KStr ''save'') [VObj 7] (sample_rendered @ [empty_object])
     = Inr (VObj 16, (sample_rendered @ [empty_object])
                       @ [call_record (VObj 2) (VObj 0) (VObj 6) (VObj 7)])
   \<and> call_method sample_lib 14 (KStr ''delete'') [VObj 7] (sample_rendered @ [empty_object])
     = Inr (VObj 16, (sample_rendered @ [empty_object])
                       @ [call_record (VObj 3) (VObj 0) (VObj 6) (VObj 7)])
   \<and> method_of sample_lib (VObj 1) ''save'' (sample_rendered @ [empty_object]) = Inr (VObj 4)
   \<and> method_of sample_lib (VObj 1) ''delete'' (sample_rendered @ [empty_object]) = Inr (VObj 5)
   \<and> call_lib sample_lib (VObj 4) (VObj 1) [VObj 6, VObj 7] (sample_rendered @ [empty_object])
     = Inr (VObj 16, (sample_rendered @ [empty_object])
                       @ [call_record (VObj 4) (VObj 1) (VObj 6) (VObj 7)])
   \<and> call_lib sample_lib (VObj 5) (VObj 1) [VObj 6, VObj 7] (sample_rendered @ [empty_object])
     = Inr (VObj 16, (sample_rendered @ [empty_object])
                       @ [call_record (VObj 5) (VObj 1) (VObj 6) (VObj 7)])"
proof -
  let ?h = "sample_rendered @ [empty_object]"
  have len: "length sample_world = 8" by (rule sample_world_length)
  note l = sample_rendered_length
  have w: "?h ! 14 = \<lparr>props = props sample_instance, extensible = True, call = None\<rparr>"
    by (simp add: sample_rendered_def nth_append len)
  have f: "?h ! 12 = function_object (Save (VObj 0) 11)"
    by (simp add: sample_rendered_def nth_append len)
  have g: "?h ! 13 = function_object (Delete (VObj 0) 11)"
    by (simp add: sample_rendered_def nth_append len)
  have i: "?h ! 11 = sample_instance"
    by (simp add: sample_rendered_def nth_append len)
  have m0: "?h ! 0 = data_object [(''save'', VObj 2), (''delete'', VObj 3)]"
    by (simp add: sample_rendered_def sample_world_def)
  have m1: "?h ! Suc 0 = data_object [(''save'', VObj 4), (''delete'', VObj 5)]"
    by (simp add: sample_rendered_def sample_world_def)
  have f2: "?h ! 2 = function_object (Lib 1)"
    by (simp add: sample_rendered_def sample_world_def)
  have f3: "?h ! 3 = function_object (Lib 2)"
    by (simp add: sample_rendered_def sample_world_def)
  have f4: "?h ! 4 = function_object (Lib 3)"
    by (simp add: sample_rendered_def sample_world_def)
  have f5: "?h ! 5 = function_object (Lib 4)"
    by (simp add: sample_rendered_def sample_world_def)
  have cs: "call_method sample_lib 14 (KStr ''save'') [VObj 7] ?h
     = Inr (VObj 16, ?h @ [call_record (VObj 2) (VObj 0) (VObj 6) (VObj 7)])"
    by (simp add: call_method_def get_prop_def call_function_def obj_at_def l w f i m0 f2
        sample_instance_def function_object_def CrudRecord_save_def arg_def
        sample_lib_def sample_method_of_def sample_call_lib_def data_object_def call_record_def)
  have cd: "call_method sample_lib 14 (KStr ''delete'') [VObj 7] ?h
     = Inr (VObj 16, ?h @ [call_record (VObj 3) (VObj 0) (VObj 6) (VObj 7)])"
    by (simp add: call_method_def get_prop_def call_function_def obj_at_def l w g i m0 f3
        sample_instance_def function_object_def CrudRecord_delete_def arg_def
        sample_lib_def sample_method_of_def sample_call_lib_def data_object_def call_record_def)
  have ms: "method_of sample_lib (VObj 1) ''save'' ?h = Inr (VObj 4)"
    by (simp add: sample_lib_def sample_method_of_def obj_at_def l m1 data_object_def)
  have md: "method_of sample_lib (VObj 1) ''delete'' ?h = Inr (VObj 5)"
    by (simp add: sample_lib_def sample_method_of_def obj_at_def l m1 data_object_def)
  have es: "call_lib sample_lib (VObj 4) (VObj 1) [VObj 6, VObj 7] ?h
     = Inr (VObj 16, ?h @ [call_record (VObj 4) (VObj 1) (VObj 6) (VObj 7)])"
    by (simp add: sample_lib_def sample_call_lib_def obj_at_def l f4 function_object_def arg_def
        call_record_def)
  have ed: "call_lib sample_lib (VObj 5) (VObj 1) [VObj 6, VObj 7] ?h
     = Inr (VObj 16, ?h @ [call_record (VObj 5) (VObj 1) (VObj 6) (VObj 7)])"
    by (simp add: sample_lib_def sample_call_lib_def obj_at_def l f5 function_object_def arg_def
        call_record_def)
  from first_render second_render cs cd ms md es ed show ?thesis by (intro conjI)
qed

subsection \<open>The wrapper\<close>

text \<open>
  Claim C2: for every input record, at a render in which \<^verbatim>\<open>useMemo\<close> runs its function
  and the constructor of \<^verbatim>\<open>Record\<close> returns an instance \<open>i\<close> (of a class as assumed in
  \<open>Record_class\<close>), \<^verbatim>\<open>useCrud\<close> returns a wrapper that is an object that did not exist
  before the render, different from the instance. Its own properties are, descriptor by
  descriptor and in the same order, the own properties of the instance: those the
  constructor gave it, then \<^verbatim>\<open>save\<close> and \<^verbatim>\<open>delete\<close>, two data properties whose values
  are the two closures of the hook.
\<close>

theorem useCrud_wrapper_carries_own_properties:
  assumes "Record_class L" and "recomputes hs h record"
    and "Record_new L record (VObj (render_setter hs h)) (render_heap hs h) = Inr (i, h1)"
  shows "\<exists>w hs' h' f g. useCrud L e (record # rest) hs h = Inr (VObj w, hs', h')
       \<and> length h \<le> w \<and> w \<noteq> i \<and> i < length h'
       \<and> obj_at h' w = Some \<lparr>props = props (h' ! i), extensible = True, call = None\<rparr>
       \<and> props (h' ! i) = props (h1 ! i) @
            [(KStr ''save'', DataDesc (VObj f) True True True),
             (KStr ''delete'', DataDesc (VObj g) True True True)]
       \<and> obj_at h' f = Some (function_object (Save (CrudContext e) i))
       \<and> obj_at h' g = Some (function_object (Delete (CrudContext e) i))"
proof -
  from assms(1,3) have inst: "plain_instance h1 i" and len: "length (render_heap hs h) \<le> length h1"
    by (auto simp: Record_class_def)
  note d = plain_instanceD[OF inst]
  note n = rendered_nth[OF d(1), where m = "CrudContext e"]
  from len length_render_heap[of h hs] have fresh: "length h \<le> Suc (Suc (length h1))" by simp
  show ?thesis
    unfolding useCrud_render[OF assms]
    using d(1) fresh by (simp add: obj_at_def n with_methods_def)
qed

theorem useCrud_wrapper_carries_own_properties_witness:
  "Record_class sample_lib \<and> recomputes unmounted sample_world (VObj 6)
   \<and> Record_new sample_lib (VObj 6) (VObj (render_setter unmounted sample_world))
        (render_heap unmounted sample_world)
      = Inr (11, sample_world @ [empty_object, function_object ForceRender, function_object (Lib 0),
          \<lparr>props = [(KStr ''_record'', DataDesc (VObj 6) True True True),
                  (KStr ''_listener'', DataDesc (VObj 9) True False True),
                  (KStr ''setAttribute'', DataDesc (VObj 10) True True True)],
           extensible = True, call = None\<rparr>])
   \<and> useCrud sample_lib \<lparr>CrudContext = VObj 0, store = VUndefined\<rparr> [VObj 6] unmounted sample_world
       = Inr (VObj 14, sample_hooks, sample_rendered)
   \<and> obj_at sample_rendered 14
       = Some \<lparr>props = props (sample_rendered ! 11), extensible = True, call = None\<rparr>
   \<and> props (sample_rendered ! 11)
       = [(KStr ''_record'', DataDesc (VObj 6) True True True),
          (KStr ''_listener'', DataDesc (VObj 9) True False True),
          (KStr ''setAttribute'', DataDesc (VObj 10) True True True),
          (KStr ''save'', DataDesc (VObj 12) True True True),
          (KStr ''delete'', DataDesc (VObj 13) True True True)]
   \<and> obj_at sample_rendered 12 = Some (function_object (Save (VObj 0) 11))
   \<and> obj_at sample_rendered 13 = Some (function_object (Delete (VObj 0) 11))"
proof -
  have c: "CrudContext \<lparr>CrudContext = VObj 0, store = VUndefined\<rparr> = VObj 0" by simp
  have i: "sample_rendered ! 11 = sample_instance"
    by (simp add: sample_rendered_def nth_append sample_world_length)
  note t = useCrud_wrapper_carries_own_properties[OF Record_class_sample recomputes_unmounted
      sample_ctor, where e = "\<lparr>CrudContext = VObj 0, store = VUndefined\<rparr>" and rest = "[]",
      unfolded first_render c]
  have r: "obj_at sample_rendered 14
       = Some \<lparr>props = props (sample_rendered ! 11), extensible = True, call = None\<rparr>
   \<and> props (sample_rendered ! 11)
       = [(KStr ''_record'', DataDesc (VObj 6) True True True),
          (KStr ''_listener'', DataDesc (VObj 9) True False True),
          (KStr ''setAttribute'', DataDesc (VObj 10) True True True),
          (KStr ''save'', DataDesc (VObj 12) True True True),
          (KStr ''delete'', DataDesc (VObj 13) True True True)]
   \<and> obj_at sample_rendered 12 = Some (function_object (Save (VObj 0) 11))
   \<and> obj_at sample_rendered 13 = Some (function_object (Delete (VObj 0) 11))"
    using t by (auto simp: i sample_instance_def nth_append sample_world_length)
  from Record_class_sample recomputes_unmounted[of sample_world "VObj 6"] sample_ctor first_render r
  show ?thesis by (intro conjI) simp_all
qed

subsection \<open>The record is passed on as it is\<close>

text \<open>
  Claim C5: \<^verbatim>\<open>useCrud\<close> does nothing with its record argument but hand it to the
  constructor of \<^verbatim>\<open>Record\<close>, whatever value it is (at a render in which \<^verbatim>\<open>useMemo\<close>
  runs its function, for a class as assumed in \<open>Record_class\<close>). If the constructor
  throws, the hook throws the same exception; if it returns, the hook returns a wrapper,
  and when the field \<^verbatim>\<open>_record\<close> of the instance holds the value \<open>x\<close>, \<^verbatim>\<open>save\<close> and
  \<^verbatim>\<open>delete\<close> pass \<open>x\<close> to the manager's method. The hook itself raises no error for
  any record.
\<close>

theorem useCrud_forwards_record:
  assumes "Record_class L" and "recomputes hs h record"
  shows "(\<forall>er. Record_new L record (VObj (render_setter hs h)) (render_heap hs h) = Inl er
            \<longrightarrow> useCrud L e (record # rest) hs h = Inl er)
       \<and> (\<forall>i h1. Record_new L record (VObj (render_setter hs h)) (render_heap hs h) = Inr (i, h1) \<longrightarrow>
            (\<exists>w hs' h'. useCrud L e (record # rest) hs h = Inr (VObj w, hs', h')
               \<and> (\<forall>x wr en cf f options.
                     map_of (props (h1 ! i)) (KStr ''_record'') = Some (DataDesc x wr en cf)
                     \<and> method_of L (CrudContext e) ''save'' h' = Inr f
                     \<longrightarrow> call_method L w (KStr ''save'') [options] h'
                           = call_lib L f (CrudContext e) [x, options] h')
               \<and> (\<forall>x wr en cf f options.
                     map_of (props (h1 ! i)) (KStr ''_record'') = Some (DataDesc x wr en cf)
                     \<and> method_of L (CrudContext e) ''delete'' h' = Inr f
                     \<longrightarrow> call_method L w (KStr ''delete'') [options] h'
                           = call_lib L f (CrudContext e) [x, options] h')))"
proof (intro conjI allI impI)
  fix er
  assume "Record_new L record (VObj (render_setter hs h)) (render_heap hs h) = Inl er"
  with assms(2) show "useCrud L e (record # rest) hs h = Inl er"
    by (rule useCrud_render_error)
next
  fix i h1
  assume ctor: "Record_new L record (VObj (render_setter hs h)) (render_heap hs h) = Inr (i, h1)"
  from assms(1) ctor have inst: "plain_instance h1 i" by (auto simp: Record_class_def)
  show "\<exists>w hs' h'. useCrud L e (record # rest) hs h = Inr (VObj w, hs', h')
               \<and> (\<forall>x wr en cf f options.
                     map_of (props (h1 ! i)) (KStr ''_record'') = Some (DataDesc x wr en cf)
                     \<and> method_of L (CrudContext e) ''save'' h' = Inr f
                     \<longrightarrow> call_method L w (KStr ''save'') [options] h'
                           = call_lib L f (CrudContext e) [x, options] h')
               \<and> (\<forall>x wr en cf f options.
                     map_of (props (h1 ! i)) (KStr ''_record'') = Some (DataDesc x wr en cf)
                     \<and> method_of L (CrudContext e) ''delete'' h' = Inr f
                     \<longrightarrow> call_method L w (KStr ''delete'') [options] h'
                           = call_lib L f (CrudContext e) [x, options] h')"
    unfolding useCrud_render[OF assms ctor]
    using record_field_rendered[OF inst, where L = L and m = "CrudContext e"]
    by (auto simp: call_save_rendered_1[OF inst] call_delete_rendered_1[OF inst]
        CrudRecord_save_def CrudRecord_delete_def)
qed

theorem useCrud_forwards_record_witness:
  "Record_class sample_lib \<and> recomputes unmounted sample_world (VObj 6)
   \<and> recomputes unmounted sample_world VNull
   \<and> Record_new sample_lib VNull (VObj (render_setter unmounted sample_world))
        (render_heap unmounted sample_world) = Inl (Thrown (VStr ''no record''))
   \<and> useCrud sample_lib \<lparr>CrudContext = VObj 0, store = VUndefined\<rparr> [VNull] unmounted sample_world
        = Inl (Thrown (VStr ''no record''))
   \<and> useCrud sample_lib \<lparr>CrudContext = VObj 0, store = VUndefined\<rparr> [VObj 6] unmounted sample_world
        = Inr (VObj 14, sample_hooks, sample_rendered)
   \<and> method_of sample_lib (VObj 0) ''save'' sample_rendered = Inr (VObj 2)
   \<and> method_of sample_lib (VObj 0) ''delete'' sample_rendered = Inr (VObj 3)
   \<and> call_method sample_lib 14 (KStr ''save'') [VObj 7] sample_rendered
        = call_lib sample_lib (VObj 2) (VObj 0) [VObj 6, VObj 7] sample_rendered
   \<and> call_method sample_lib 14 (KStr ''delete'') [VObj 7] sample_rendered
        = call_lib sample_lib (VObj 3) (VObj 0) [VObj 6, VObj 7] sample_rendered"
proof -
  let ?e = "\<lparr>CrudContext = VObj 0, store = VUndefined\<rparr>"
  have c: "CrudContext ?e = VObj 0" by simp
  note t1 = useCrud_forwards_record[OF Record_class_sample recomputes_unmounted,
      of VNull sample_world "\<lparr>CrudContext = VObj 0, store = VUndefined\<rparr>" "[]"]
  from t1 sample_ctor_null
  have err: "useCrud sample_lib ?e [VNull] unmounted sample_world = Inl (Thrown (VStr ''no record''))"
    by blast
  note t2 = useCrud_forwards_record[OF Record_class_sample recomputes_unmounted,
      of "VObj 6" sample_world "\<lparr>CrudContext = VObj 0, store = VUndefined\<rparr>" "[]"]
  have m0: "sample_rendered ! 0 = data_object [(''save'', VObj 2), (''delete'', VObj 3)]"
    by (simp add: sample_rendered_def sample_world_def)
  have ms: "method_of sample_lib (VObj 0) ''save'' sample_rendered = Inr (VObj 2)"
    by (simp add: sample_lib_def sample_method_of_def obj_at_def sample_rendered_length m0
        data_object_def)
  have md: "method_of sample_lib (VObj 0) ''delete'' sample_rendered = Inr (VObj 3)"
    by (simp add: sample_lib_def sample_method_of_def obj_at_def sample_rendered_length m0
        data_object_def)
  note t2c = t2[THEN conjunct2, rule_format, OF sample_ctor, unfolded first_render c]
  have cs: "call_method sample_lib 14 (KStr ''save'') [VObj 7] sample_rendered
        = call_lib sample_lib (VObj 2) (VObj 0) [VObj 6, VObj 7] sample_rendered"
    using t2c ms by (auto simp: nth_append sample_world_length)
  have cd: "call_method sample_lib 14 (KStr ''delete'') [VObj 7] sample_rendered
        = call_lib sample_lib (VObj 3) (VObj 0) [VObj 6, VObj 7] sample_rendered"
    using t2c md by (auto simp: nth_append sample_world_length)
  from Record_class_sample recomputes_unmounted[of sample_world "VObj 6"]
    recomputes_unmounted[of sample_world VNull] sample_ctor_null err first_render ms md cs cd
  show ?thesis by (intro conjI)
qed

subsection \<open>A change of the context\<close>

text \<open>
  Claim C4 says that at every render the methods of the wrapper dispatch to the manager
  read from the context at that render. The dependencies of \<^verbatim>\<open>useMemo\<close> are
  \<^verbatim>\<open>[reference, record]\<close>, without \<^verbatim>\<open>crudManager\<close>: when the provider hands out another
  manager and neither dependency has changed, the hook returns the cached wrapper, whose
  closures still hold the earlier manager. Here the component is first rendered under the
  manager 0 and then under the manager 1: the second render returns the same wrapper 14,
  and its \<^verbatim>\<open>save\<close> calls the method of the manager 0 (function 2, receiver 0), not the
  method that the manager of the context has (function 4).
\<close>

theorem memoised_wrapper_keeps_first_manager:
  "useCrud sample_lib \<lparr>CrudContext = VObj 0, store = VUndefined\<rparr> [VObj 6] unmounted sample_world
     = Inr (VObj 14, sample_hooks, sample_rendered)
   \<and> useCrud sample_lib \<lparr>CrudContext = VObj 1, store = VUndefined\<rparr> [VObj 6] sample_hooks sample_rendered
     = Inr (VObj 14, sample_hooks, sample_rendered @ [empty_object])
   \<and> call_method sample_lib 14 (KStr ''save'') [VObj 7] (sample_rendered @ [empty_object])
     = call_lib sample_lib (VObj 2) (VObj 0) [VObj 6, VObj 7] (sample_rendered @ [empty_object])
   \<and> method_of sample_lib (VObj 1) ''save'' (sample_rendered @ [empty_object]) = Inr (VObj 4)
   \<and> call_lib sample_lib (VObj 2) (VObj 0) [VObj 6, VObj 7] (sample_rendered @ [empty_object])
     \<noteq> call_lib sample_lib (VObj 4) (VObj 1) [VObj 6, VObj 7] (sample_rendered @ [empty_object])"
proof -
  have len: "length sample_world = 8" by (rule sample_world_length)
  have w: "(sample_rendered @ [empty_object]) ! 14
             = \<lparr>props = props sample_instance, extensible = True, call = None\<rparr>"
    by (simp add: sample_rendered_def nth_append len)
  have f: "(sample_rendered @ [empty_object]) ! 12 = function_object (Save (VObj 0) 11)"
    by (simp add: sample_rendered_def nth_append len)
  have i: "(sample_rendered @ [empty_object]) ! 11 = sample_instance"
    by (simp add: sample_rendered_def nth_append len)
  have m0: "(sample_rendered @ [empty_object]) ! 0
              = data_object [(''save'', VObj 2), (''delete'', VObj 3)]"
    by (simp add: sample_rendered_def sample_world_def)
  have m1: "(sample_rendered @ [empty_object]) ! Suc 0
              = data_object [(''save'', VObj 4), (''delete'', VObj 5)]"
    by (simp add: sample_rendered_def sample_world_def)
  have f2: "(sample_rendered @ [empty_object]) ! 2 = function_object (Lib 1)"
    by (simp add: sample_rendered_def sample_world_def)
  have f4: "(sample_rendered @ [empty_object]) ! 4 = function_object (Lib 3)"
    by (simp add: sample_rendered_def sample_world_def)
  note l = sample_rendered_length
  have c: "call_method sample_lib 14 (KStr ''save'') [VObj 7] (sample_rendered @ [empty_object])
     = call_lib sample_lib (VObj 2) (VObj 0) [VObj 6, VObj 7] (sample_rendered @ [empty_object])"
    by (simp add: call_method_def get_prop_def call_function_def obj_at_def l w f i m0
        sample_instance_def function_object_def CrudRecord_save_def arg_def
        sample_lib_def sample_method_of_def data_object_def)
  have m: "method_of sample_lib (VObj 1) ''save'' (sample_rendered @ [empty_object]) = Inr (VObj 4)"
    by (simp add: sample_lib_def sample_method_of_def obj_at_def l m1 data_object_def)
  have d: "call_lib sample_lib (VObj 2) (VObj 0) [VObj 6, VObj 7] (sample_rendered @ [empty_object])
     \<noteq> call_lib sample_lib (VObj 4) (VObj 1) [VObj 6, VObj 7] (sample_rendered @ [empty_object])"
    by (simp add: sample_lib_def sample_call_lib_def obj_at_def l f2 f4 function_object_def)
  from first_render second_render c m d show ?thesis by (intro conjI)
qed

subsection \<open>A recomputation returns a new wrapper\<close>

text \<open>
  Claim C7: a component is mounted, its state is \<open>ref0\<close> and \<^verbatim>\<open>useMemo\<close> holds the
  wrapper \<open>w0\<close> computed for the record \<open>rec0\<close>. Then the setter \<^verbatim>\<open>forceRender\<close> stores
  \<open>ref1\<close>, or the component is rendered with the record \<open>rec1\<close>, and one of the two
  differs from before. If the constructor returns an instance other than \<open>w0\<close> and has
  left \<open>w0\<close> as it was, the render returns a wrapper that is an object created by this
  render, hence not \<open>w0\<close>; the object \<open>w0\<close> is the same after the render as before it;
  and \<^verbatim>\<open>useMemo\<close> now holds the new wrapper for the new dependencies.
\<close>

theorem useCrud_recompute_returns_new_wrapper:
  assumes cls: "Record_class L"
    and st: "state_slot hs = Some (ref0, st)"
    and memo: "memo_slot hs = Some ([ref0, rec0], VObj w0)"
    and w0: "w0 < length h"
    and changed: "ref1 \<noteq> ref0 \<or> rec1 \<noteq> rec0"
    and ctor: "Record_new L rec1 (VObj st) (h @ [empty_object]) = Inr (i, h1)"
    and other: "i \<noteq> w0" and kept: "h1 ! w0 = h ! w0"
  shows "\<exists>w hs' h'. useCrud L e (rec1 # rest) (forceRender ref1 hs) h = Inr (VObj w, hs', h')
        \<and> w \<noteq> w0 \<and> length h \<le> w \<and> h' ! w0 = h ! w0
        \<and> memo_slot hs' = Some ([ref1, rec1], VObj w)"
proof -
  let ?hs = "forceRender ref1 hs"
  from st have st': "state_slot ?hs = Some (ref1, st)" and memo': "memo_slot ?hs = memo_slot hs"
    by (simp_all add: forceRender_def)
  note m = render_mounted[OF st', of h]
  from memo memo' changed have re: "recomputes ?hs h rec1"
    by (auto simp: recomputes_def m)
  from ctor have ctor': "Record_new L rec1 (VObj (render_setter ?hs h)) (render_heap ?hs h) = Inr (i, h1)"
    by (simp add: m)
  from cls ctor have "length (h @ [empty_object]) \<le> length h1 \<and> plain_instance h1 i"
    unfolding Record_class_def by blast
  then have inst: "plain_instance h1 i" and len: "Suc (length h) \<le> length h1"
    by simp_all
  note d = plain_instanceD[OF inst]
  note n = rendered_nth[OF d(1), where m = "CrudContext e"]
  from w0 len have w0': "w0 < length h1" by simp
  show ?thesis
    unfolding useCrud_render[OF cls re ctor']
    using w0 w0' len other kept by (simp add: n m)
qed

theorem useCrud_recompute_returns_new_wrapper_witness:
  "Record_class sample_lib
   \<and> state_slot sample_hooks = Some (VObj 8, 9)
   \<and> memo_slot sample_hooks = Some ([VObj 8, VObj 6], VObj 14)
   \<and> 14 < length (sample_rendered @ [empty_object])
   \<and> VObj 15 \<noteq> VObj 8
   \<and> Record_new sample_lib (VObj 6) (VObj 9) ((sample_rendered @ [empty_object]) @ [empty_object])
       = Inr (18, (sample_rendered @ [empty_object])
                    @ [empty_object, function_object (Lib 0), sample_second_instance])
   \<and> (18::nat) \<noteq> 14
   \<and> ((sample_rendered @ [empty_object])
          @ [empty_object, function_object (Lib 0), sample_second_instance]) ! 14
       = (sample_rendered @ [empty_object]) ! 14
   \<and> (\<exists>w hs' h'.
         useCrud sample_lib \<lparr>CrudContext = VObj 0, store = VUndefined\<rparr> [VObj 6]
           (forceRender (VObj 15) sample_hooks) (sample_rendered @ [empty_object])
         = Inr (VObj w, hs', h')
       \<and> w \<noteq> 14 \<and> length (sample_rendered @ [empty_object]) \<le> w
       \<and> h' ! 14 = (sample_rendered @ [empty_object]) ! 14
       \<and> memo_slot hs' = Some ([VObj 15, VObj 6], VObj w))"
proof -
  have st: "state_slot sample_hooks = Some (VObj 8, 9)" by (simp add: sample_hooks_def)
  have memo: "memo_slot sample_hooks = Some ([VObj 8, VObj 6], VObj 14)"
    by (simp add: sample_hooks_def)
  have w0: "14 < length (sample_rendered @ [empty_object])"
    by (simp add: sample_rendered_length)
  have changed: "VObj 15 \<noteq> VObj 8 \<or> VObj 6 \<noteq> VObj 6" by simp
  have ctor: "Record_new sample_lib (VObj 6) (VObj 9)
                ((sample_rendered @ [empty_object]) @ [empty_object])
       = Inr (18, (sample_rendered @ [empty_object])
                    @ [empty_object, function_object (Lib 0), sample_second_instance])"
    by (simp add: sample_lib_def sample_Record_new_def sample_rendered_length
        sample_second_instance_def)
  have other: "(18::nat) \<noteq> 14" by simp
  have kept: "((sample_rendered @ [empty_object])
          @ [empty_object, function_object (Lib 0), sample_second_instance]) ! 14
       = (sample_rendered @ [empty_object]) ! 14"
    by (simp add: nth_append sample_rendered_length)
  from useCrud_recompute_returns_new_wrapper[OF Record_class_sample st memo w0 changed ctor other kept,
      where e = "\<lparr>CrudContext = VObj 0, store = VUndefined\<rparr>" and rest = "[]"]
    Record_class_sample st memo w0 ctor other kept
  show ?thesis by (intro conjI) simp_all
qed

subsection \<open>What the hook does not look at\<close>

text \<open>
  Claim C8: two runs of \<^verbatim>\<open>useCrud\<close> that differ only in the store that travels with
  the context and in the arguments after the record give the same result: the same
  wrapper, the same hook state and the same heap. The hook reads the record and the value
  of \<^verbatim>\<open>CrudContext\<close>; it does not read the store, and an options argument such as
  \<^verbatim>\<open>{unSubscribeDelay, onUnSubscribe}\<close> is dropped. Nor does it write the store: when
  the store is an object \<open>s\<close> of the heap that the constructor of \<^verbatim>\<open>Record\<close> neither
  returns nor changes, a render leaves \<open>s\<close> as it was.
\<close>

theorem useCrud_ignores_store_and_options:
  "useCrud L (e\<lparr>store := s1\<rparr>) (record # rest1) hs h
     = useCrud L (e\<lparr>store := s2\<rparr>) (record # rest2) hs h
   \<and> (Record_class L
        \<and> (\<forall>r l hh i h1. Record_new L r l hh = Inr (i, h1) \<and> s < length hh
               \<longrightarrow> i \<noteq> s \<and> h1 ! s = hh ! s)
        \<and> store e = VObj s \<and> s < length h
        \<and> useCrud L e (record # rest1) hs h = Inr (v, hs', h')
      \<longrightarrow> h' ! s = h ! s)"
proof (intro conjI impI)
  show "useCrud L (e\<lparr>store := s1\<rparr>) (record # rest1) hs h
     = useCrud L (e\<lparr>store := s2\<rparr>) (record # rest2) hs h"
    by (simp add: useCrud_def arg_def useContext_def)
next
  assume a: "Record_class L
        \<and> (\<forall>r l hh i h1. Record_new L r l hh = Inr (i, h1) \<and> s < length hh
               \<longrightarrow> i \<noteq> s \<and> h1 ! s = hh ! s)
        \<and> store e = VObj s \<and> s < length h
        \<and> useCrud L e (record # rest1) hs h = Inr (v, hs', h')"
  then have cls: "Record_class L"
    and fr: "\<forall>r l hh i h1. Record_new L r l hh = Inr (i, h1) \<and> s < length hh
               \<longrightarrow> i \<noteq> s \<and> h1 ! s = hh ! s"
    and s: "s < length h"
    and run: "useCrud L e (record # rest1) hs h = Inr (v, hs', h')"
    by blast+
  from cls fr s run show "h' ! s = h ! s" by (rule useCrud_frame)
qed

theorem useCrud_ignores_store_and_options_witness:
  "useCrud sample_lib (\<lparr>CrudContext = VObj 0, store = VObj 7\<rparr>\<lparr>store := VObj 7\<rparr>) [VObj 6, VObj 7]
       unmounted sample_world
     = useCrud sample_lib (\<lparr>CrudContext = VObj 0, store = VObj 7\<rparr>\<lparr>store := VUndefined\<rparr>) [VObj 6]
       unmounted sample_world
   \<and> Record_class sample_lib
   \<and> store \<lparr>CrudContext = VObj 0, store = VObj 7\<rparr> = VObj 7
   \<and> 7 < length sample_world
   \<and> useCrud sample_lib \<lparr>CrudContext = VObj 0, store = VObj 7\<rparr> [VObj 6, VObj 7]
       unmounted sample_world
     = Inr (VObj 14, sample_hooks, sample_rendered)
   \<and> sample_rendered ! 7 = sample_world ! 7"
proof -
  note t = useCrud_ignores_store_and_options[of sample_lib "VObj 7"
      "\<lparr>CrudContext = VObj 0, store = VObj 7\<rparr>" "VObj 6" "[VObj 7]" unmounted sample_world
      VUndefined "[]" 7 "VObj 14" sample_hooks sample_rendered]
  have run: "useCrud sample_lib \<lparr>CrudContext = VObj 0, store = VObj 7\<rparr> [VObj 6, VObj 7]
       unmounted sample_world
     = Inr (VObj 14, sample_hooks, sample_rendered)"
    using t[THEN conjunct1] first_render by simp
  have len: "7 < length sample_world" by (simp add: sample_world_length)
  have st: "store \<lparr>CrudContext = VObj 0, store = VObj 7\<rparr> = VObj 7" by simp
  from t[THEN conjunct2] Record_class_sample sample_ctor_keeps[of 7] st len run
  have kept: "sample_rendered ! 7 = sample_world ! 7" by blast
  from t[THEN conjunct1] Record_class_sample st len run kept
  show ?thesis by (intro conjI)
qed

end
